theory Spec2Isabelle
  imports Main "HOL-Library.FSet"
begin

section \<open>Python values\<close>

text \<open>
  The values that step fields, user parameters and the execution state hold.
  A \<open>Decimal\<close> (and every \<open>assets.Asset\<close>, a subclass of it) is a finite decimal number
  given by its coefficient and exponent. A \<open>dict\<close> is an association list, read with
  \<open>map_of\<close>. Strings are lists of code points below 256.
\<close>

datatype pyval =
    VNone
  | VBool bool
  | VInt int
  | VStr string
  | VDecimal int int
  | VDict "(string \<times> pyval) list"

text \<open>Python's truth value testing, as used by \<open>if x\<close>, \<open>x or y\<close> and \<open>bool(x)\<close>.\<close>

fun truthy :: "pyval \<Rightarrow> bool" where
  "truthy VNone = False"
| "truthy (VBool b) = b"
| "truthy (VInt i) = (i \<noteq> 0)"
| "truthy (VStr s) = (s \<noteq> [])"
| "truthy (VDecimal c e) = (c \<noteq> 0)"
| "truthy (VDict kvs) = (kvs \<noteq> [])"

text \<open>The name of \<open>type(value)\<close>, which the type errors store.\<close>

fun py_type :: "pyval \<Rightarrow> string" where
  "py_type VNone = ''NoneType''"
| "py_type (VBool b) = ''bool''"
| "py_type (VInt i) = ''int''"
| "py_type (VStr s) = ''str''"
| "py_type (VDecimal c e) = ''Decimal''"
| "py_type (VDict kvs) = ''dict''"

text \<open>\<open>isinstance(p, (str, bool, int, Decimal))\<close>\<close>

fun is_literal :: "pyval \<Rightarrow> bool" where
  "is_literal (VStr s) = True"
| "is_literal (VBool b) = True"
| "is_literal (VInt i) = True"
| "is_literal (VDecimal c e) = True"
| "is_literal VNone = False"
| "is_literal (VDict kvs) = False"

text \<open>
  A Python type object as \<open>Param.type\<close> uses it: \<open>zero\<close> is the value of the call
  \<open>type()\<close> without argument, \<open>conv x\<close> the value of \<open>type(x)\<close>, \<open>None\<close> when the call
  raises. The types themselves (\<open>int\<close>, \<open>str\<close>, \<open>bool\<close>, \<open>Decimal\<close>, the assets)
  are not code of the pipeline, so the definitions below take them as a parameter.
\<close>

record pytype =
  type_name :: string
  zero :: pyval
  conv :: "pyval \<Rightarrow> pyval option"

subsection \<open>The builtin type \<open>int\<close>\<close>

text \<open>
  \<open>int(s)\<close> on a string: whitespace around the literal is skipped, a sign may come
  first, then groups of decimal digits separated by single underscores. The whitespace
  skipped is the ASCII whitespace and, of the code points from 128 on, the two that are
  whitespace (\<open>0x85\<close> and \<open>0xA0\<close>), which \<open>int\<close> turns into spaces first; the
  separators \<open>0x1C\<close> to \<open>0x1F\<close> are not skipped. A literal of more than 4300 digits is
  refused (\<open>sys.int_max_str_digits\<close>, at its default, from CPython 3.11 on).
\<close>

definition is_space :: "char \<Rightarrow> bool" where
  "is_space c = ((of_char c :: nat) \<in> {9, 10, 11, 12, 13, 32, 133, 160})"

definition is_digit :: "char \<Rightarrow> bool" where
  "is_digit c = (48 \<le> (of_char c :: nat) \<and> (of_char c :: nat) \<le> 57)"

definition strip :: "string \<Rightarrow> string" where
  "strip s = rev (dropWhile is_space (rev (dropWhile is_space s)))"

fun digit_groups :: "bool \<Rightarrow> string \<Rightarrow> bool" where
  "digit_groups after_digit [] = after_digit"
| "digit_groups after_digit (c # cs) =
     (if is_digit c then digit_groups True cs
      else if c = CHR ''_'' \<and> after_digit then digit_groups False cs
      else False)"

definition digits_value :: "string \<Rightarrow> int" where
  "digits_value s = foldl (\<lambda>acc c. 10 * acc + (int (of_char c) - 48)) 0 (filter is_digit s)"

definition int_max_str_digits :: nat where
  "int_max_str_digits = 4300"

definition int_of_digits :: "string \<Rightarrow> int option" where
  "int_of_digits s =
     (if digit_groups False s \<and> length (filter is_digit s) \<le> int_max_str_digits
      then Some (digits_value s) else None)"

definition int_of_str :: "string \<Rightarrow> int option" where
  "int_of_str s =
     (case strip s of
        [] \<Rightarrow> None
      | c # cs \<Rightarrow>
          if c = CHR ''-'' then map_option uminus (int_of_digits cs)
          else if c = CHR ''+'' then int_of_digits cs
          else int_of_digits (c # cs))"

fun int_conv :: "pyval \<Rightarrow> pyval option" where
  "int_conv (VInt i) = Some (VInt i)"
| "int_conv (VBool b) = Some (VInt (if b then 1 else 0))"
| "int_conv (VStr s) = map_option VInt (int_of_str s)"
| "int_conv (VDecimal c e) =
     Some (VInt (if 0 \<le> e then c * 10 ^ nat e else sgn c * (\<bar>c\<bar> div 10 ^ nat (- e))))"
| "int_conv VNone = None"
| "int_conv (VDict kvs) = None"

definition py_int :: pytype where
  "py_int = \<lparr>type_name = ''int'', zero = VInt 0, conv = int_conv\<rparr>"

section \<open>Param and Ref (params.py)\<close>

text \<open>An unset \<open>default\<close> is \<open>None\<close>.\<close>

record param =
  param_type :: pytype
  param_key :: string
  param_name :: string
  param_required :: bool
  param_default :: pyval

record ref =
  ref_key :: string
  ref_required :: bool
  ref_default :: pyval



section \<open>Steps (pipeline.py)\<close>

text \<open>
  What a dataclass field of a step holds: a value, a \<open>Param\<close> or a \<open>Ref\<close>. A field is
  a formal parameter when the class attribute of its name is a \<open>Param\<close>
  (\<open>_formal_params\<close>); \<open>formal_param\<close> is that class attribute, \<open>field_value\<close> what the
  instance holds.
\<close>

datatype fieldval = Val pyval | P param | R ref

record field =
  field_name :: string
  formal_param :: param
  field_value :: fieldval

text \<open>The concrete step classes that call one visitor method each.\<close>

datatype kind =
    Setup | Balance | Prices | BorrowLimit | BorrowLimitFraction | BorrowBalance
  | Borrow | Transfer | SetAllowance | SetContractAllowance | Allowance
  | GiveCollateral | Supply | Redeemable | Redeem | Repay | CompAccrued | HarvestComp
  | LQTYAccrued | ETHAccrued | HarvestLQTY | DepositLUSD | WithdrawLUSD
  | EstimateHarvestCost | StabilityPoolCheck | LiquityExitCheck | StoreMinGasBalance
  | CalculateDifference | CalculateLiquityAPR
  | ForecastBorrowLimitFractionAfterSwapWithinLimit
  | OneInchTargetQuote | OneInchSourceQuote | SetOneInchAllowance | OneInchSwap
  | CTokenEquivalent | ConvertETHToWETH

text \<open>\<open>Transform\<close> and its two subclasses.\<close>

datatype tkind = PlainTransform | Expr | ReportResult

text \<open>
  The callable \<open>func\<close> of a \<open>Transform\<close> takes the state and the resolved \<open>args\<close>;
  \<open>None\<close> stands for a call that raises. Only a visitor ever calls it.
\<close>

type_synonym state = "string \<rightharpoonup> pyval"

type_synonym callable = "state \<Rightarrow> pyval list \<Rightarrow> pyval option"

text \<open>
  A step of the tree. \<open>Group\<close> declares no formal parameter; \<open>Repeat\<close> declares one,
  \<open>max\<close>. Every step of a tree is an object of its own: a value of this type cannot
  say that one object stands at two places of the tree.
\<close>

datatype step =
    Leaf kind string "field list"
  | Transform tkind string callable "fieldval list"
  | Group string "string option" "step list" "step option" "step list" bool
  | Repeat string "string option" "step list" "step option" "step list" bool fieldval

fun slug :: "step \<Rightarrow> string" where
  "slug (Leaf k sl fs) = sl"
| "slug (Transform tk sl f as) = sl"
| "slug (Group sl d gs ec ss h) = sl"
| "slug (Repeat sl d gs ec ss h m) = sl"

section \<open>Errors (errors.py)\<close>

text \<open>
  \<open>InvalidChainEffectError\<close> receives as \<open>step_slug\<close> the slug of a guard, but the
  \<open>Expr\<close> object itself for an entry condition.
\<close>

datatype step_name = Slug string | StepObject step

datatype error =
    InvalidReferenceError string string
  | InvalidFormalParamTypeError string string string
  | InvalidFormalParamError string string pyval
  | InvalidChainEffectError step_name string
  | MissingParamError string string
  | InvalidParamTypeError string string string
  | RuntimeError string
  | AttributeError
  | TypeError
  | VisitorError string

text \<open>The base class each error class of errors.py is declared with.\<close>

datatype error_family = PipelineDefinitionError | PipelineExecutionError | Builtin | Collaborator

fun family :: "error \<Rightarrow> error_family" where
  "family (InvalidReferenceError s k) = PipelineDefinitionError"
| "family (InvalidFormalParamTypeError s n t) = PipelineDefinitionError"
| "family (InvalidFormalParamError s n v) = PipelineDefinitionError"
| "family (InvalidChainEffectError n c) = PipelineDefinitionError"
| "family (MissingParamError s k) = PipelineExecutionError"
| "family (InvalidParamTypeError s n t) = PipelineExecutionError"
| "family (RuntimeError m) = Builtin"
| "family AttributeError = Builtin"
| "family TypeError = Builtin"
| "family (VisitorError m) = Collaborator"

section \<open>Parameter resolution\<close>

text \<open>\<open>d.get(k, default)\<close>; what is not a dict has no \<open>get\<close>.\<close>

fun dict_get :: "pyval \<Rightarrow> string \<Rightarrow> pyval \<Rightarrow> error + pyval" where
  "dict_get (VDict kvs) k d = Inr (case map_of kvs k of None \<Rightarrow> d | Some v \<Rightarrow> v)"
| "dict_get VNone k d = Inl AttributeError"
| "dict_get (VBool b) k d = Inl AttributeError"
| "dict_get (VInt i) k d = Inl AttributeError"
| "dict_get (VStr s) k d = Inl AttributeError"
| "dict_get (VDecimal c e) k d = Inl AttributeError"

definition state_get :: "state \<Rightarrow> string \<Rightarrow> pyval \<Rightarrow> pyval" where
  "state_get st k d = (case st k of None \<Rightarrow> d | Some v \<Rightarrow> v)"

text \<open>
  The body of the loop of \<open>Step._prepare_args\<close> for one formal parameter: the actual
  value of the field, or the error raised.
\<close>

definition prepare_field ::
  "string \<Rightarrow> state \<Rightarrow> pyval \<Rightarrow> field \<Rightarrow> error + pyval" where
  "prepare_field self_slug st user_params fld =
     (case field_value fld of
        Val p \<Rightarrow>
          if is_literal p then
            (case conv (param_type (formal_param fld)) p of
               None \<Rightarrow> Inl (InvalidParamTypeError self_slug (param_key (formal_param fld)) (py_type p))
             | Some actual \<Rightarrow>
                 if actual = VNone \<and> param_required (formal_param fld)
                 then Inl (InvalidFormalParamError self_slug (field_name fld) p)
                 else Inr actual)
          else Inl (InvalidFormalParamTypeError self_slug (field_name fld) (py_type p))
      | P p \<Rightarrow>
          (case dict_get user_params (param_key p) (param_default p) of
             Inl e \<Rightarrow> Inl e
           | Inr user_param \<Rightarrow>
               if user_param = VNone \<or> user_param = VStr [] then
                 (if param_required p then Inl (MissingParamError self_slug (param_key p))
                  else Inr VNone)
               else
                 (case conv (param_type p) user_param of
                    None \<Rightarrow> Inl (InvalidParamTypeError self_slug (param_key p) (py_type user_param))
                  | Some actual \<Rightarrow> Inr actual))
      | R r \<Rightarrow>
          (let actual = state_get st (ref_key r) (ref_default r)
           in if actual = VNone \<and> ref_required r
              then Inl (InvalidReferenceError self_slug (ref_key r))
              else Inr actual))"

text \<open>
  \<open>Step._prepare_args\<close>: the formal parameters in order, the first error ends the
  loop; the result is the copy \<open>replace(self, **actual_params)\<close>, here the fields with
  their values replaced.
\<close>

fun prepare_fields ::
  "string \<Rightarrow> state \<Rightarrow> pyval \<Rightarrow> field list \<Rightarrow> error + field list" where
  "prepare_fields self_slug st user_params [] = Inr []"
| "prepare_fields self_slug st user_params (fld # flds) =
     (case prepare_field self_slug st user_params fld of
        Inl e \<Rightarrow> Inl e
      | Inr actual \<Rightarrow>
          (case prepare_fields self_slug st user_params flds of
             Inl e \<Rightarrow> Inl e
           | Inr flds' \<Rightarrow> Inr (fld\<lparr>field_value := Val actual\<rparr> # flds')))"

text \<open>\<open>str(i)\<close> for a natural number, as \<open>format\<close> and f-strings render it.\<close>

fun str_nat :: "nat \<Rightarrow> string" where
  "str_nat n =
     (if n < 10 then [char_of (48 + n)]
      else str_nat (n div 10) @ [char_of (48 + n mod 10)])"

text \<open>
  The body of the loop of \<open>Transform._prepare_args\<close> over \<open>self.args\<close>: a literal is
  kept as it is, and the errors name the argument by its index.
\<close>

definition prepare_arg ::
  "string \<Rightarrow> state \<Rightarrow> pyval \<Rightarrow> nat \<Rightarrow> fieldval \<Rightarrow> error + pyval" where
  "prepare_arg self_slug st user_params i a =
     (case a of
        Val p \<Rightarrow>
          if is_literal p then Inr p
          else Inl (InvalidFormalParamTypeError self_slug (''args['' @ str_nat i @ '']'') (py_type p))
      | P p \<Rightarrow>
          (case dict_get user_params (param_key p) (param_default p) of
             Inl e \<Rightarrow> Inl e
           | Inr user_param \<Rightarrow>
               if user_param = VNone \<or> user_param = VStr [] then
                 (if param_required p
                  then Inl (MissingParamError self_slug
                              (''args['' @ str_nat i @ ''], key='' @ param_key p))
                  else Inr VNone)
               else
                 (case conv (param_type p) user_param of
                    None \<Rightarrow> Inl (InvalidParamTypeError self_slug
                                  (''args['' @ str_nat i @ ''], key='' @ param_key p)
                                  (py_type user_param))
                  | Some actual \<Rightarrow> Inr actual))
      | R r \<Rightarrow>
          (let actual = state_get st (ref_key r) (ref_default r)
           in if actual = VNone \<and> ref_required r
              then Inl (InvalidReferenceError self_slug (ref_key r))
              else Inr actual))"

fun prepare_arg_list ::
  "string \<Rightarrow> state \<Rightarrow> pyval \<Rightarrow> nat \<Rightarrow> fieldval list \<Rightarrow> error + fieldval list" where
  "prepare_arg_list self_slug st user_params i [] = Inr []"
| "prepare_arg_list self_slug st user_params i (a # as) =
     (case prepare_arg self_slug st user_params i a of
        Inl e \<Rightarrow> Inl e
      | Inr actual \<Rightarrow>
          (case prepare_arg_list self_slug st user_params (Suc i) as of
             Inl e \<Rightarrow> Inl e
           | Inr as' \<Rightarrow> Inr (Val actual # as')))"

text \<open>The class attribute \<open>Repeat.max\<close>, the one formal parameter of a \<open>Repeat\<close>.\<close>

definition Repeat_max :: param where
  "Repeat_max = \<lparr>param_type = py_int, param_key = ''max'', param_name = [],
                  param_required = True, param_default = VInt 50\<rparr>"

text \<open>
  \<open>self._prepare_args(state, user_params)\<close> for each class of step. A plain step
  resolves its formal parameters; a \<open>Transform\<close> has none and resolves its \<open>args\<close>; a
  \<open>Group\<close> has none, so that the copy equals the group; a \<open>Repeat\<close> resolves \<open>max\<close>.
\<close>

fun prepare_args :: "step \<Rightarrow> state \<Rightarrow> pyval \<Rightarrow> error + step" where
  "prepare_args (Leaf k sl flds) st user_params =
     (case prepare_fields sl st user_params flds of
        Inl e \<Rightarrow> Inl e
      | Inr flds' \<Rightarrow> Inr (Leaf k sl flds'))"
| "prepare_args (Transform tk sl f as) st user_params =
     (case prepare_arg_list sl st user_params 0 as of
        Inl e \<Rightarrow> Inl e
      | Inr as' \<Rightarrow> Inr (Transform tk sl f as'))"
| "prepare_args (Group sl d gs ec ss h) st user_params = Inr (Group sl d gs ec ss h)"
| "prepare_args (Repeat sl d gs ec ss h m) st user_params =
     (case prepare_field sl st user_params
             \<lparr>field_name = ''max'', formal_param = Repeat_max, field_value = m\<rparr> of
        Inl e \<Rightarrow> Inl e
      | Inr actual \<Rightarrow> Inr (Repeat sl d gs ec ss h (Val actual)))"

section \<open>Slug assignment (Pipeline._init_slugs)\<close>

text \<open>\<open>camel_to_snake\<close> of utils.py, on class names, which are ASCII identifiers.\<close>

definition is_upper :: "char \<Rightarrow> bool" where
  "is_upper c = (65 \<le> (of_char c :: nat) \<and> (of_char c :: nat) \<le> 90)"

definition is_lower :: "char \<Rightarrow> bool" where
  "is_lower c = (97 \<le> (of_char c :: nat) \<and> (of_char c :: nat) \<le> 122)"

text \<open>
  \<open>str.lower\<close> on one character: the letters \<open>A\<close> to \<open>Z\<close> and, from 128 on, the
  upper-case letters \<open>0xC0\<close> to \<open>0xDE\<close> (\<open>0xD7\<close>, the multiplication sign, is none)
  have their lower-case form 32 code points further on.
\<close>

definition lower :: "char \<Rightarrow> char" where
  "lower c =
     (if is_upper c
         \<or> (192 \<le> (of_char c :: nat) \<and> (of_char c :: nat) \<le> 222 \<and> (of_char c :: nat) \<noteq> 215)
      then char_of ((of_char c :: nat) + 32) else c)"

text \<open>
  \<open>_first1.sub(r"\1_\2", name)\<close> with \<open>_first1 = (.)([A-Z][a-z]+)\<close>: the leftmost match
  is replaced, and the search goes on behind it.
\<close>

function first1_sub :: "string \<Rightarrow> string" where
  "first1_sub (c # u # l # rest) =
     (if c \<noteq> CHR 0x0A \<and> is_upper u \<and> is_lower l
      then c # CHR ''_'' # u # l # takeWhile is_lower rest @ first1_sub (dropWhile is_lower rest)
      else c # first1_sub (u # l # rest))"
| "first1_sub [c, u] = [c, u]"
| "first1_sub [c] = [c]"
| "first1_sub [] = []"
  by pat_completeness auto
termination
proof (relation "measure length")
  fix c u l :: char and rest :: string
  have "length (dropWhile is_lower rest) \<le> length rest"
    by (rule length_dropWhile_le)
  then show "(dropWhile is_lower rest, c # u # l # rest) \<in> measure length"
    by simp
qed simp_all

text \<open>\<open>_all2.sub(r"\1_\2", subbed)\<close> with \<open>_all2 = ([a-z0-9])([A-Z])\<close>\<close>

fun all2_sub :: "string \<Rightarrow> string" where
  "all2_sub (a # b # rest) =
     (if (is_lower a \<or> is_digit a) \<and> is_upper b
      then a # CHR ''_'' # b # all2_sub rest
      else a # all2_sub (b # rest))"
| "all2_sub [a] = [a]"
| "all2_sub [] = []"

definition camel_to_snake :: "string \<Rightarrow> string" where
  "camel_to_snake name = map lower (all2_sub (first1_sub name))"

text \<open>\<open>el.__class__.__name__\<close>\<close>

fun kind_name :: "kind \<Rightarrow> string" where
  "kind_name Setup = ''Setup''"
| "kind_name Balance = ''Balance''"
| "kind_name Prices = ''Prices''"
| "kind_name BorrowLimit = ''BorrowLimit''"
| "kind_name BorrowLimitFraction = ''BorrowLimitFraction''"
| "kind_name BorrowBalance = ''BorrowBalance''"
| "kind_name Borrow = ''Borrow''"
| "kind_name Transfer = ''Transfer''"
| "kind_name SetAllowance = ''SetAllowance''"
| "kind_name SetContractAllowance = ''SetContractAllowance''"
| "kind_name Allowance = ''Allowance''"
| "kind_name GiveCollateral = ''GiveCollateral''"
| "kind_name Supply = ''Supply''"
| "kind_name Redeemable = ''Redeemable''"
| "kind_name Redeem = ''Redeem''"
| "kind_name Repay = ''Repay''"
| "kind_name CompAccrued = ''CompAccrued''"
| "kind_name HarvestComp = ''HarvestComp''"
| "kind_name LQTYAccrued = ''LQTYAccrued''"
| "kind_name ETHAccrued = ''ETHAccrued''"
| "kind_name HarvestLQTY = ''HarvestLQTY''"
| "kind_name DepositLUSD = ''DepositLUSD''"
| "kind_name WithdrawLUSD = ''WithdrawLUSD''"
| "kind_name EstimateHarvestCost = ''EstimateHarvestCost''"
| "kind_name StabilityPoolCheck = ''StabilityPoolCheck''"
| "kind_name LiquityExitCheck = ''LiquityExitCheck''"
| "kind_name StoreMinGasBalance = ''StoreMinGasBalance''"
| "kind_name CalculateDifference = ''CalculateDifference''"
| "kind_name CalculateLiquityAPR = ''CalculateLiquityAPR''"
| "kind_name ForecastBorrowLimitFractionAfterSwapWithinLimit =
     ''ForecastBorrowLimitFractionAfterSwapWithinLimit''"
| "kind_name OneInchTargetQuote = ''OneInchTargetQuote''"
| "kind_name OneInchSourceQuote = ''OneInchSourceQuote''"
| "kind_name SetOneInchAllowance = ''SetOneInchAllowance''"
| "kind_name OneInchSwap = ''OneInchSwap''"
| "kind_name CTokenEquivalent = ''CTokenEquivalent''"
| "kind_name ConvertETHToWETH = ''ConvertETHToWETH''"

fun tkind_name :: "tkind \<Rightarrow> string" where
  "tkind_name PlainTransform = ''Transform''"
| "tkind_name Expr = ''Expr''"
| "tkind_name ReportResult = ''ReportResult''"

fun class_name :: "step \<Rightarrow> string" where
  "class_name (Leaf k sl flds) = kind_name k"
| "class_name (Transform tk sl f as) = tkind_name tk"
| "class_name (Group sl d gs ec ss h) = ''Group''"
| "class_name (Repeat sl d gs ec ss h m) = ''Repeat''"

text \<open>
  \<open>walk\<close>: the step itself, then for a group its guards, its entry condition and its
  steps, each walked in turn. The paths that \<open>walk\<close> yields beside the steps are left
  out: \<open>_init_slugs\<close> ignores them.
\<close>

fun walk :: "step \<Rightarrow> step list" where
  "walk (Leaf k sl flds) = [Leaf k sl flds]"
| "walk (Transform tk sl f as) = [Transform tk sl f as]"
| "walk (Group sl d gs ec ss h) =
     Group sl d gs ec ss h # concat (map walk gs)
       @ (case ec of None \<Rightarrow> [] | Some e \<Rightarrow> walk e) @ concat (map walk ss)"
| "walk (Repeat sl d gs ec ss h m) =
     Repeat sl d gs ec ss h m # concat (map walk gs)
       @ (case ec of None \<Rightarrow> [] | Some e \<Rightarrow> walk e) @ concat (map walk ss)"

text \<open>\<open>"{}_{}".format(base_slug, i)\<close>\<close>

definition format_slug :: "string \<Rightarrow> nat \<Rightarrow> string" where
  "format_slug base_slug i = base_slug @ ''_'' @ str_nat i"

text \<open>The assignment \<open>el.slug = slug\<close>.\<close>

fun set_slug :: "step \<Rightarrow> string \<Rightarrow> step" where
  "set_slug (Leaf k sl flds) s = Leaf k s flds"
| "set_slug (Transform tk sl f as) s = Transform tk s f as"
| "set_slug (Group sl d gs ec ss h) s = Group s d gs ec ss h"
| "set_slug (Repeat sl d gs ec ss h m) s = Repeat s d gs ec ss h m"

text \<open>
  The loop \<open>while slug in seen: slug = "{}_{}".format(base_slug, i); i += 1\<close> on its
  variables \<open>slug\<close> and \<open>i\<close>. It ends because \<open>seen\<close> is finite and the candidates
  differ from each other.
\<close>

function find_slug :: "string fset \<Rightarrow> string \<Rightarrow> string \<Rightarrow> nat \<Rightarrow> string" where
  "find_slug seen base_slug sl i =
     (if sl |\<in>| seen then find_slug seen base_slug (format_slug base_slug i) (i + 1) else sl)"
  by pat_completeness auto
termination
proof (relation "measure (\<lambda>(seen, base_slug, sl, i).
          card {j. i \<le> j \<and> format_slug base_slug j |\<in>| seen} + (if sl |\<in>| seen then 1 else 0))")
  show "wf (measure (\<lambda>(seen, base_slug, sl, i).
          card {j. i \<le> j \<and> format_slug base_slug j |\<in>| seen} + (if sl |\<in>| seen then 1 else 0)))"
    by simp
next
  fix seen :: "string fset" and base_slug sl :: string and i :: nat
  assume "sl |\<in>| seen"
  have nonempty: "str_nat n \<noteq> []" for n
    by (subst str_nat.simps) simp
  have str_nat_inj: "str_nat n = str_nat m \<Longrightarrow> n = m" for n m
  proof (induction n arbitrary: m rule: str_nat.induct)
    case (1 n)
    show ?case
    proof (cases "n < 10")
      case True
      then have n: "str_nat n = [char_of (48 + n)]" by (subst str_nat.simps) simp
      show ?thesis
      proof (cases "m < 10")
        case True
        then have "str_nat m = [char_of (48 + m)]" by (subst str_nat.simps) simp
        with n "1.prems" have "char_of (48 + n) = (char_of (48 + m) :: char)" by simp
        with \<open>n < 10\<close> \<open>m < 10\<close> show ?thesis
          by (simp add: char_of_eq_iff take_bit_eq_mod)
      next
        case False
        then have "str_nat m = str_nat (m div 10) @ [char_of (48 + m mod 10)]"
          by (subst str_nat.simps) simp
        with n "1.prems" nonempty [of "m div 10"] show ?thesis
          by (cases "str_nat (m div 10)") auto
      qed
    next
      case False
      then have n: "str_nat n = str_nat (n div 10) @ [char_of (48 + n mod 10)]"
        by (subst str_nat.simps) simp
      show ?thesis
      proof (cases "m < 10")
        case True
        then have "str_nat m = [char_of (48 + m)]" by (subst str_nat.simps) simp
        with n "1.prems" nonempty [of "n div 10"] show ?thesis
          by (cases "str_nat (n div 10)") auto
      next
        case m: False
        then have "str_nat m = str_nat (m div 10) @ [char_of (48 + m mod 10)]"
          by (subst str_nat.simps) simp
        with n "1.prems" have a: "str_nat (n div 10) = str_nat (m div 10)"
          and b: "char_of (48 + n mod 10) = (char_of (48 + m mod 10) :: char)" by auto
        from "1.IH" [OF False a] have d: "n div 10 = m div 10" .
        from b have "n mod 10 = m mod 10"
          by (simp add: char_of_eq_iff take_bit_eq_mod)
        with d show ?thesis by (metis div_mult_mod_eq)
      qed
    qed
  qed
  have inj: "inj (format_slug base_slug)"
    by (rule injI) (simp add: format_slug_def str_nat_inj)
  have fin: "finite {j. format_slug base_slug j |\<in>| seen}"
    using finite_vimageI [OF finite_fset inj, of seen] by (simp add: vimage_def)
  have fin': "finite {j. i + 1 \<le> j \<and> format_slug base_slug j |\<in>| seen}"
    by (rule finite_subset [OF _ fin]) auto
  have "card {j. i \<le> j \<and> format_slug base_slug j |\<in>| seen}
          = card {j. i + 1 \<le> j \<and> format_slug base_slug j |\<in>| seen}
            + (if format_slug base_slug i |\<in>| seen then 1 else 0)"
  proof (cases "format_slug base_slug i |\<in>| seen")
    case True
    then have "{j. i \<le> j \<and> format_slug base_slug j |\<in>| seen}
                = insert i {j. i + 1 \<le> j \<and> format_slug base_slug j |\<in>| seen}"
      by (auto simp: Suc_le_eq le_less)
    with True fin' show ?thesis by simp
  next
    case False
    then have "{j. i \<le> j \<and> format_slug base_slug j |\<in>| seen}
                = {j. i + 1 \<le> j \<and> format_slug base_slug j |\<in>| seen}"
      by (auto simp: Suc_le_eq le_less)
    with False show ?thesis by simp
  qed
  with \<open>sl |\<in>| seen\<close>
  show "((seen, base_slug, format_slug base_slug i, i + 1), (seen, base_slug, sl, i))
          \<in> measure (\<lambda>(seen, base_slug, sl, i).
               card {j. i \<le> j \<and> format_slug base_slug j |\<in>| seen} + (if sl |\<in>| seen then 1 else 0))"
    by simp
qed

text \<open>
  The body of the loop of \<open>_init_slugs\<close> for one element of the walk: the element with
  its slug, and \<open>seen\<close> with that slug added; a slug given twice raises.
\<close>

definition init_slug :: "string fset \<Rightarrow> step \<Rightarrow> error + step \<times> string fset" where
  "init_slug seen el =
     (if slug el \<noteq> [] then
        (if slug el |\<in>| seen then Inl (RuntimeError (''duplicate slug found: '' @ slug el))
         else Inr (el, finsert (slug el) seen))
      else
        (let base_slug = camel_to_snake (class_name el);
             sl = find_slug seen base_slug base_slug 1
         in Inr (set_slug el sl, finsert sl seen)))"

text \<open>
  \<open>_init_slugs\<close> over the walk of a step: the loop body at the step itself, then at
  the steps below it in the order of \<open>walk\<close>. The result is the tree as the assignments
  leave it. The assignment \<open>el.slug = slug\<close> changes the object in place, so that an
  object that stood at two places of the tree would be met with its new slug at the
  second and raise there; the trees here hold every object once.
\<close>

fun init_slugs :: "string fset \<Rightarrow> step \<Rightarrow> error + step \<times> string fset"
  and init_slugs_list :: "string fset \<Rightarrow> step list \<Rightarrow> error + step list \<times> string fset"
  and init_slugs_option :: "string fset \<Rightarrow> step option \<Rightarrow> error + step option \<times> string fset"
where
  "init_slugs seen (Leaf k sl flds) = init_slug seen (Leaf k sl flds)"
| "init_slugs seen (Transform tk sl f as) = init_slug seen (Transform tk sl f as)"
| "init_slugs seen (Group sl d gs ec ss h) =
     (case init_slug seen (Group sl d gs ec ss h) of
        Inl e \<Rightarrow> Inl e
      | Inr (el, seen1) \<Rightarrow>
          (case init_slugs_list seen1 gs of
             Inl e \<Rightarrow> Inl e
           | Inr (gs', seen2) \<Rightarrow>
               (case init_slugs_option seen2 ec of
                  Inl e \<Rightarrow> Inl e
                | Inr (ec', seen3) \<Rightarrow>
                    (case init_slugs_list seen3 ss of
                       Inl e \<Rightarrow> Inl e
                     | Inr (ss', seen4) \<Rightarrow> Inr (Group (slug el) d gs' ec' ss' h, seen4)))))"
| "init_slugs seen (Repeat sl d gs ec ss h m) =
     (case init_slug seen (Repeat sl d gs ec ss h m) of
        Inl e \<Rightarrow> Inl e
      | Inr (el, seen1) \<Rightarrow>
          (case init_slugs_list seen1 gs of
             Inl e \<Rightarrow> Inl e
           | Inr (gs', seen2) \<Rightarrow>
               (case init_slugs_option seen2 ec of
                  Inl e \<Rightarrow> Inl e
                | Inr (ec', seen3) \<Rightarrow>
                    (case init_slugs_list seen3 ss of
                       Inl e \<Rightarrow> Inl e
                     | Inr (ss', seen4) \<Rightarrow> Inr (Repeat (slug el) d gs' ec' ss' h m, seen4)))))"
| "init_slugs_list seen [] = Inr ([], seen)"
| "init_slugs_list seen (s # rest) =
     (case init_slugs seen s of
        Inl e \<Rightarrow> Inl e
      | Inr (s', seen1) \<Rightarrow>
          (case init_slugs_list seen1 rest of
             Inl e \<Rightarrow> Inl e
           | Inr (rest', seen2) \<Rightarrow> Inr (s' # rest', seen2)))"
| "init_slugs_option seen None = Inr (None, seen)"
| "init_slugs_option seen (Some e) =
     (case init_slugs seen e of
        Inl err \<Rightarrow> Inl err
      | Inr (e', seen1) \<Rightarrow> Inr (Some e', seen1))"

text \<open>\<open>Pipeline.__init__\<close>: without a root the pipeline is the empty group \<open>main\<close>.\<close>

record pipeline =
  root :: step

definition Pipeline :: "step option \<Rightarrow> error + pipeline" where
  "Pipeline r =
     (case init_slugs {||} (case r of None \<Rightarrow> Group ''main'' None [] None [] False | Some s \<Rightarrow> s) of
        Inl e \<Rightarrow> Inl e
      | Inr (root', seen) \<Rightarrow> Inr \<lparr>root = root'\<rparr>)"

section \<open>The base slug in the words of the specification\<close>

text \<open>
  The lowercase, underscore-separated form of a name, letter by letter. Behind the
  first character of the name, a word begins at an upper-case letter that follows a
  lower-case letter or a digit, and at an upper-case letter that is followed by a
  lower-case letter (the last of a run of capitals, which begins a capitalised word;
  not so behind a line feed). An underscore goes before every letter at which a word
  begins, and all letters are put in lower case. \<open>snake_from p s\<close> is the rest \<open>s\<close> of a
  name behind the character \<open>p\<close>, with the underscores.
\<close>

fun snake_from :: "char \<Rightarrow> string \<Rightarrow> string" where
  "snake_from p [] = []"
| "snake_from p (c # cs) =
     (if is_upper c
         \<and> (is_lower p \<or> is_digit p
              \<or> (p \<noteq> CHR 0x0A \<and> (case cs of [] \<Rightarrow> False | l # rest \<Rightarrow> is_lower l)))
      then CHR ''_'' # c # snake_from c cs
      else c # snake_from c cs)"

definition snake_case :: "string \<Rightarrow> string" where
  "snake_case name = map lower (case name of [] \<Rightarrow> [] | c # cs \<Rightarrow> c # snake_from c cs)"

text \<open>
  The same for a rest of a name whose first letter begins a word only if it follows a
  lower-case letter or a digit, as it is for the rest of a name behind a match of
  \<open>_first1\<close>.
\<close>

fun head_from :: "char \<Rightarrow> string \<Rightarrow> string" where
  "head_from p [] = []"
| "head_from p (c # cs) =
     (if is_upper c \<and> (is_lower p \<or> is_digit p)
      then CHR ''_'' # c # snake_from c cs
      else c # snake_from c cs)"

text \<open>
  The words that make up the name of each step class, in lower case, and words joined
  by underscores.
\<close>

fun kind_words :: "kind \<Rightarrow> string list" where
  "kind_words Setup = [''setup'']"
| "kind_words Balance = [''balance'']"
| "kind_words Prices = [''prices'']"
| "kind_words BorrowLimit = [''borrow'', ''limit'']"
| "kind_words BorrowLimitFraction = [''borrow'', ''limit'', ''fraction'']"
| "kind_words BorrowBalance = [''borrow'', ''balance'']"
| "kind_words Borrow = [''borrow'']"
| "kind_words Transfer = [''transfer'']"
| "kind_words SetAllowance = [''set'', ''allowance'']"
| "kind_words SetContractAllowance = [''set'', ''contract'', ''allowance'']"
| "kind_words Allowance = [''allowance'']"
| "kind_words GiveCollateral = [''give'', ''collateral'']"
| "kind_words Supply = [''supply'']"
| "kind_words Redeemable = [''redeemable'']"
| "kind_words Redeem = [''redeem'']"
| "kind_words Repay = [''repay'']"
| "kind_words CompAccrued = [''comp'', ''accrued'']"
| "kind_words HarvestComp = [''harvest'', ''comp'']"
| "kind_words LQTYAccrued = [''lqty'', ''accrued'']"
| "kind_words ETHAccrued = [''eth'', ''accrued'']"
| "kind_words HarvestLQTY = [''harvest'', ''lqty'']"
| "kind_words DepositLUSD = [''deposit'', ''lusd'']"
| "kind_words WithdrawLUSD = [''withdraw'', ''lusd'']"
| "kind_words EstimateHarvestCost = [''estimate'', ''harvest'', ''cost'']"
| "kind_words StabilityPoolCheck = [''stability'', ''pool'', ''check'']"
| "kind_words LiquityExitCheck = [''liquity'', ''exit'', ''check'']"
| "kind_words StoreMinGasBalance = [''store'', ''min'', ''gas'', ''balance'']"
| "kind_words CalculateDifference = [''calculate'', ''difference'']"
| "kind_words CalculateLiquityAPR = [''calculate'', ''liquity'', ''apr'']"
| "kind_words ForecastBorrowLimitFractionAfterSwapWithinLimit =
     [''forecast'', ''borrow'', ''limit'', ''fraction'', ''after'', ''swap'', ''within'', ''limit'']"
| "kind_words OneInchTargetQuote = [''one'', ''inch'', ''target'', ''quote'']"
| "kind_words OneInchSourceQuote = [''one'', ''inch'', ''source'', ''quote'']"
| "kind_words SetOneInchAllowance = [''set'', ''one'', ''inch'', ''allowance'']"
| "kind_words OneInchSwap = [''one'', ''inch'', ''swap'']"
| "kind_words CTokenEquivalent = [''c'', ''token'', ''equivalent'']"
| "kind_words ConvertETHToWETH = [''convert'', ''eth'', ''to'', ''weth'']"

fun tkind_words :: "tkind \<Rightarrow> string list" where
  "tkind_words PlainTransform = [''transform'']"
| "tkind_words Expr = [''expr'']"
| "tkind_words ReportResult = [''report'', ''result'']"

fun class_words :: "step \<Rightarrow> string list" where
  "class_words (Leaf k sl flds) = kind_words k"
| "class_words (Transform tk sl f as) = tkind_words tk"
| "class_words (Group sl d gs ec ss h) = [''group'']"
| "class_words (Repeat sl d gs ec ss h m) = [''repeat'']"

fun underscore_separated :: "string list \<Rightarrow> string" where
  "underscore_separated [] = []"
| "underscore_separated [w] = w"
| "underscore_separated (w # ws) = w @ ''_'' @ underscore_separated ws"

section \<open>Execution (accept)\<close>

text \<open>\<open>Evaluation\<close>: the state a step leaves and whether it had an effect on the chain.\<close>

record evaluation =
  state :: state
  chain_effect :: bool

text \<open>
  The executor. A Python visitor is an object with a state of its own (\<open>PrintExecutor\<close>
  keeps a log), so every method takes the executor's state \<open>'w\<close> and returns it changed,
  beside its result or the error it raises. \<open>visit\<close> stands for the methods that take a
  resolved step of one concrete class each (\<open>balance\<close>, \<open>transfer\<close>, \<open>expr\<close>, \<dots>): the
  step tells which one is meant. \<open>deepcopy(state)\<close> is the state itself, values being
  immutable here.
\<close>

record 'w visitor =
  visit :: "step \<Rightarrow> state \<Rightarrow> 'w \<Rightarrow> (error + evaluation) \<times> 'w"
  enter_group :: "step \<Rightarrow> state \<Rightarrow> 'w \<Rightarrow> (error + state) \<times> 'w"
  exit_group :: "step \<Rightarrow> state \<Rightarrow> 'w \<Rightarrow> (error + state) \<times> 'w"
  enter_repeat :: "step \<Rightarrow> state \<Rightarrow> 'w \<Rightarrow> (error + state) \<times> 'w"
  exit_repeat :: "step \<Rightarrow> state \<Rightarrow> 'w \<Rightarrow> (error + state) \<times> 'w"

text \<open>
  \<open>range(self.max)\<close> needs an integer (a \<open>bool\<close> is one) and raises \<open>TypeError\<close> on
  anything else.
\<close>

fun range_stop :: "step \<Rightarrow> error + int" where
  "range_stop (Repeat sl d gs ec ss h (Val (VInt n))) = Inr n"
| "range_stop (Repeat sl d gs ec ss h (Val (VBool b))) = Inr (if b then 1 else 0)"
| "range_stop s = Inl TypeError"

text \<open>By which way the loop of \<open>Repeat.accept\<close> was left. The source does not record it.\<close>

datatype loop_exit = Condition_false | No_chain_effect | Range_exhausted

text \<open>
  \<open>accept\<close> of every class of step, with the loops of \<open>Group\<close> and \<open>Repeat\<close>:
  \<^item> \<open>accept_given\<close> is the loop over \<open>self.given\<close> in \<open>_eval_condition\<close>;
  \<^item> \<open>eval_condition\<close> is \<open>Group._eval_condition\<close>, given the slug, the guards and the
    entry condition of \<open>self\<close>;
  \<^item> \<open>accept_steps\<close> is the loop over \<open>self.steps\<close>, on the state and
    \<open>any_chain_effect\<close>;
  \<^item> \<open>repeat_loop\<close> is \<open>for c in range(self.max)\<close> from the index \<open>c\<close> on; it returns
    the state, \<open>any_chain_effect\<close> and \<open>c\<close> as the loop leaves them.
  \<open>logger_warn\<close> is the method \<open>warn\<close> of the module's logger: it returns nothing,
  raises nothing, and acts on what lies outside the traversal, which is the \<open>'w\<close> it
  shares with the executor.
  \<open>Allowance\<close> defines \<open>run\<close> and no \<open>accept\<close>, so that it inherits \<open>Step.accept\<close>,
  which returns the state as it is.
\<close>

function (sequential)
  accept :: "'w visitor \<Rightarrow> (string \<Rightarrow> 'w \<Rightarrow> 'w) \<Rightarrow> step \<Rightarrow> state \<Rightarrow> pyval \<Rightarrow> 'w
               \<Rightarrow> (error + evaluation) \<times> 'w"
  and accept_given :: "'w visitor \<Rightarrow> (string \<Rightarrow> 'w \<Rightarrow> 'w) \<Rightarrow> string \<Rightarrow> step list \<Rightarrow> state
               \<Rightarrow> pyval \<Rightarrow> 'w \<Rightarrow> (error + state) \<times> 'w"
  and eval_condition :: "'w visitor \<Rightarrow> (string \<Rightarrow> 'w \<Rightarrow> 'w) \<Rightarrow> string \<Rightarrow> step list
               \<Rightarrow> step option \<Rightarrow> state \<Rightarrow> pyval \<Rightarrow> 'w \<Rightarrow> (error + state \<times> pyval) \<times> 'w"
  and accept_steps :: "'w visitor \<Rightarrow> (string \<Rightarrow> 'w \<Rightarrow> 'w) \<Rightarrow> step list \<Rightarrow> state \<Rightarrow> pyval
               \<Rightarrow> bool \<Rightarrow> 'w \<Rightarrow> (error + state \<times> bool) \<times> 'w"
  and repeat_loop :: "'w visitor \<Rightarrow> (string \<Rightarrow> 'w \<Rightarrow> 'w) \<Rightarrow> string \<Rightarrow> step list
               \<Rightarrow> step option \<Rightarrow> step list \<Rightarrow> int \<Rightarrow> int \<Rightarrow> state \<Rightarrow> pyval \<Rightarrow> bool \<Rightarrow> 'w
               \<Rightarrow> (error + state \<times> bool \<times> int \<times> loop_exit) \<times> 'w"
where
  "accept v logger_warn (Leaf k sl flds) st user_params w =
     (if k = Allowance then (Inr \<lparr>state = st, chain_effect = False\<rparr>, w)
      else
        (case prepare_args (Leaf k sl flds) st user_params of
           Inl e \<Rightarrow> (Inl e, w)
         | Inr self' \<Rightarrow> visit v self' st w))"
| "accept v logger_warn (Transform tk sl f as) st user_params w =
     (case prepare_args (Transform tk sl f as) st user_params of
        Inl e \<Rightarrow> (Inl e, w)
      | Inr self' \<Rightarrow> visit v self' st w)"
| "accept v logger_warn (Group sl d gs ec ss h) st user_params w =
     (case prepare_args (Group sl d gs ec ss h) st user_params of
        Inl e \<Rightarrow> (Inl e, w)
      | Inr self' \<Rightarrow>
          (case enter_group v self' st w of
             (Inl e, w1) \<Rightarrow> (Inl e, w1)
           | (Inr st1, w1) \<Rightarrow>
               (case eval_condition v logger_warn sl gs ec st1 user_params w1 of
                  (Inl e, w2) \<Rightarrow> (Inl e, w2)
                | (Inr (st2, condition), w2) \<Rightarrow>
                    (case (if truthy condition
                           then accept_steps v logger_warn ss st2 user_params False w2
                           else (Inr (st2, False), w2)) of
                       (Inl e, w3) \<Rightarrow> (Inl e, w3)
                     | (Inr (st3, any_chain_effect), w3) \<Rightarrow>
                         (case exit_group v self' st3 w3 of
                            (Inl e, w4) \<Rightarrow> (Inl e, w4)
                          | (Inr st4, w4) \<Rightarrow>
                              (Inr \<lparr>state = st4, chain_effect = any_chain_effect\<rparr>, w4))))))"
| "accept v logger_warn (Repeat sl d gs ec ss h m) st user_params w =
     (case prepare_args (Repeat sl d gs ec ss h m) st user_params of
        Inl e \<Rightarrow> (Inl e, w)
      | Inr self' \<Rightarrow>
          (case enter_repeat v self' st w of
             (Inl e, w1) \<Rightarrow> (Inl e, w1)
           | (Inr st1, w1) \<Rightarrow>
               (case range_stop self' of
                  Inl e \<Rightarrow> (Inl e, w1)
                | Inr self_max \<Rightarrow>
                    (case repeat_loop v logger_warn sl gs ec ss self_max 0 st1 user_params False w1 of
                       (Inl e, w2) \<Rightarrow> (Inl e, w2)
                     | (Inr (st2, any_chain_effect, c, how), w2) \<Rightarrow>
                         (case exit_repeat v self' st2
                                 (if c \<ge> self_max - 1
                                  then logger_warn ''maximum iterations reached for Repeat Group'' w2
                                  else w2) of
                            (Inl e, w3) \<Rightarrow> (Inl e, w3)
                          | (Inr st3, w3) \<Rightarrow>
                              (Inr \<lparr>state = st3, chain_effect = any_chain_effect\<rparr>, w3))))))"
| "accept_given v logger_warn self_slug [] st user_params w = (Inr st, w)"
| "accept_given v logger_warn self_slug (g # gs) st user_params w =
     (case dict_get user_params (slug g) (VDict []) of
        Inl e \<Rightarrow> (Inl e, w)
      | Inr params \<Rightarrow>
          (case accept v logger_warn g st params w of
             (Inl e, w1) \<Rightarrow> (Inl e, w1)
           | (Inr ev, w1) \<Rightarrow>
               if chain_effect ev
               then (Inl (InvalidChainEffectError (Slug (slug g)) (self_slug @ ''.given'')), w1)
               else accept_given v logger_warn self_slug gs (state ev) user_params w1))"
| "eval_condition v logger_warn self_slug gs ec st user_params w =
     (case accept_given v logger_warn self_slug gs st user_params w of
        (Inl e, w1) \<Rightarrow> (Inl e, w1)
      | (Inr st1, w1) \<Rightarrow>
          (case ec of
             None \<Rightarrow> (Inr (st1, VBool True), w1)
           | Some entry_condition \<Rightarrow>
               (case dict_get user_params (slug entry_condition) (VDict []) of
                  Inl e \<Rightarrow> (Inl e, w1)
                | Inr params \<Rightarrow>
                    (case accept v logger_warn entry_condition st1 params w1 of
                       (Inl e, w2) \<Rightarrow> (Inl e, w2)
                     | (Inr ev, w2) \<Rightarrow>
                         if chain_effect ev
                         then (Inl (InvalidChainEffectError (StepObject entry_condition)
                                      (self_slug @ ''.entry_condition'')), w2)
                         else (Inr (state ev, state_get (state ev) ''_condition_'' (VBool False)),
                               w2)))))"
| "accept_steps v logger_warn [] st user_params any_chain_effect w =
     (Inr (st, any_chain_effect), w)"
| "accept_steps v logger_warn (s # ss) st user_params any_chain_effect w =
     (case dict_get user_params (slug s) (VDict []) of
        Inl e \<Rightarrow> (Inl e, w)
      | Inr params \<Rightarrow>
          (case accept v logger_warn s st params w of
             (Inl e, w1) \<Rightarrow> (Inl e, w1)
           | (Inr ev, w1) \<Rightarrow>
               accept_steps v logger_warn ss (state ev) user_params
                 (any_chain_effect \<or> chain_effect ev) w1))"
| "repeat_loop v logger_warn self_slug gs ec ss self_max c st user_params any_chain_effect w =
     (if c < self_max then
        (case eval_condition v logger_warn self_slug gs ec st user_params w of
           (Inl e, w1) \<Rightarrow> (Inl e, w1)
         | (Inr (st1, condition), w1) \<Rightarrow>
             if \<not> truthy condition then (Inr (st1, any_chain_effect, c, Condition_false), w1)
             else
               (case accept_steps v logger_warn ss st1 user_params any_chain_effect w1 of
                  (Inl e, w2) \<Rightarrow> (Inl e, w2)
                | (Inr (st2, any_chain_effect'), w2) \<Rightarrow>
                    if \<not> any_chain_effect'
                    then (Inr (st2, any_chain_effect', c, No_chain_effect), w2)
                    else if c + 1 < self_max
                    then repeat_loop v logger_warn self_slug gs ec ss self_max (c + 1) st2
                           user_params any_chain_effect' w2
                    else (Inr (st2, any_chain_effect', c, Range_exhausted), w2)))
      else (Inr (st, any_chain_effect, c, Range_exhausted), w))"
  by pat_completeness auto
termination
  by (relation "inv_image (less_than <*lex*> less_than <*lex*> less_than)
        (\<lambda>x. case x of
           Inl (Inl (v, lg, s, st, up, w)) \<Rightarrow> (size s, 3::nat, 0::nat)
         | Inl (Inr (v, lg, sl, gs, st, up, w)) \<Rightarrow> (size_list size gs, 0, 0)
         | Inr (Inl (v, lg, sl, gs, ec, st, up, w)) \<Rightarrow>
             (size_list size gs + size_option size ec, 1, 0)
         | Inr (Inr (Inl (v, lg, ss, st, up, ace, w))) \<Rightarrow> (size_list size ss, 0, 0)
         | Inr (Inr (Inr (v, lg, sl, gs, ec, ss, mx, c, st, up, ace, w))) \<Rightarrow>
             (size_list size gs + size_option size ec + size_list size ss, 2, nat (mx - c)))")
     (auto split: sum.splits)

declare repeat_loop.simps [simp del]

declare str_nat.simps [simp del]

declare find_slug.simps [simp del]

text \<open>
  \<open>Pipeline.__call__\<close>: the traversal starts at the root with an empty state and the
  user parameters found under the root's slug.
\<close>

definition pipeline_call ::
  "'w visitor \<Rightarrow> (string \<Rightarrow> 'w \<Rightarrow> 'w) \<Rightarrow> pipeline \<Rightarrow> pyval \<Rightarrow> 'w \<Rightarrow> (error + state) \<times> 'w" where
  "pipeline_call executor logger_warn p user_params w =
     (case dict_get (if \<not> truthy user_params then VDict [] else user_params)
             (slug (root p)) VNone of
        Inl e \<Rightarrow> (Inl e, w)
      | Inr params \<Rightarrow>
          (case accept executor logger_warn (root p) Map.empty
                  (if truthy params then params else VDict []) w of
             (Inl e, w1) \<Rightarrow> (Inl e, w1)
           | (Inr ev, w1) \<Rightarrow> (Inr (state ev), w1)))"

section \<open>The calls of \<open>accept\<close> below a step\<close>

text \<open>
  A call \<open>step.accept(visitor, state, user_params)\<close>: the step, the state and the user
  parameters it receives, and the executor as the call finds it.
\<close>

type_synonym 'w call = "step \<times> state \<times> pyval \<times> 'w"

text \<open>
  Where a step stands in a group: it is the \<open>i\<close>-th of the guards (\<open>given\<close>), the entry
  condition, or the \<open>i\<close>-th of the steps, counted from 0.
\<close>

datatype place = Given nat | Entry_condition | Steps nat

text \<open>
  The call that \<open>_eval_condition\<close>, started on the state \<open>st\<close>, makes on the guard or
  the entry condition at a place: a guard is called when the guards before it have
  passed, the entry condition when all guards have. \<open>None\<close> when there is no such step
  or the evaluation ends before it.
\<close>

definition condition_call ::
  "'w visitor \<Rightarrow> (string \<Rightarrow> 'w \<Rightarrow> 'w) \<Rightarrow> string \<Rightarrow> step list \<Rightarrow> step option \<Rightarrow> state
     \<Rightarrow> pyval \<Rightarrow> 'w \<Rightarrow> place \<Rightarrow> 'w call option" where
  "condition_call v logger_warn self_slug gs ec st user_params w pl =
     (case pl of
        Given i \<Rightarrow>
          if i < length gs then
            (case accept_given v logger_warn self_slug (take i gs) st user_params w of
               (Inl e, w1) \<Rightarrow> None
             | (Inr st1, w1) \<Rightarrow>
                 (case dict_get user_params (slug (gs ! i)) (VDict []) of
                    Inl e \<Rightarrow> None
                  | Inr params \<Rightarrow> Some (gs ! i, st1, params, w1)))
          else None
      | Entry_condition \<Rightarrow>
          (case ec of
             None \<Rightarrow> None
           | Some entry_condition \<Rightarrow>
               (case accept_given v logger_warn self_slug gs st user_params w of
                  (Inl e, w1) \<Rightarrow> None
                | (Inr st1, w1) \<Rightarrow>
                    (case dict_get user_params (slug entry_condition) (VDict []) of
                       Inl e \<Rightarrow> None
                     | Inr params \<Rightarrow> Some (entry_condition, st1, params, w1))))
      | Steps j \<Rightarrow> None)"

text \<open>
  The call that the loop over \<open>self.steps\<close> makes on the \<open>j\<close>-th step, when the steps
  before it have returned.
\<close>

definition steps_call ::
  "'w visitor \<Rightarrow> (string \<Rightarrow> 'w \<Rightarrow> 'w) \<Rightarrow> step list \<Rightarrow> state \<Rightarrow> pyval \<Rightarrow> bool \<Rightarrow> 'w
     \<Rightarrow> nat \<Rightarrow> 'w call option" where
  "steps_call v logger_warn ss st user_params any_chain_effect w j =
     (if j < length ss then
        (case accept_steps v logger_warn (take j ss) st user_params any_chain_effect w of
           (Inl e, w1) \<Rightarrow> None
         | (Inr (st1, any_chain_effect'), w1) \<Rightarrow>
             (case dict_get user_params (slug (ss ! j)) (VDict []) of
                Inl e \<Rightarrow> None
              | Inr params \<Rightarrow> Some (ss ! j, st1, params, w1)))
      else None)"

text \<open>
  One pass through a group, as \<open>Group.accept\<close> makes one and \<open>Repeat.accept\<close> one in
  every iteration: \<open>_eval_condition\<close>, then the steps if the condition holds. The call
  made at a place in the pass that starts on the state \<open>st\<close>.
\<close>

definition pass_call ::
  "'w visitor \<Rightarrow> (string \<Rightarrow> 'w \<Rightarrow> 'w) \<Rightarrow> string \<Rightarrow> step list \<Rightarrow> step option \<Rightarrow> step list
     \<Rightarrow> state \<Rightarrow> pyval \<Rightarrow> bool \<Rightarrow> 'w \<Rightarrow> place \<Rightarrow> 'w call option" where
  "pass_call v logger_warn self_slug gs ec ss st user_params any_chain_effect w pl =
     (case pl of
        Steps j \<Rightarrow>
          (case eval_condition v logger_warn self_slug gs ec st user_params w of
             (Inl e, w1) \<Rightarrow> None
           | (Inr (st1, condition), w1) \<Rightarrow>
               if truthy condition
               then steps_call v logger_warn ss st1 user_params any_chain_effect w1 j
               else None)
      | _ \<Rightarrow> condition_call v logger_warn self_slug gs ec st user_params w pl)"

text \<open>
  The state, \<open>any_chain_effect\<close> and the executor with which iteration \<open>c\<close> of the loop
  of \<open>Repeat.accept\<close> starts, the loop having started on \<open>st\<close> and \<open>w\<close>; \<open>None\<close> when
  the loop ends before that iteration. Iteration \<open>c + 1\<close> starts when iteration \<open>c\<close> has
  found the condition true, run the steps, left \<open>any_chain_effect\<close> true, and \<open>c + 1\<close>
  is in \<open>range(self.max)\<close>.
\<close>

fun iteration_start ::
  "'w visitor \<Rightarrow> (string \<Rightarrow> 'w \<Rightarrow> 'w) \<Rightarrow> string \<Rightarrow> step list \<Rightarrow> step option \<Rightarrow> step list
     \<Rightarrow> int \<Rightarrow> pyval \<Rightarrow> nat \<Rightarrow> state \<Rightarrow> 'w \<Rightarrow> (state \<times> bool \<times> 'w) option" where
  "iteration_start v logger_warn self_slug gs ec ss self_max user_params 0 st w =
     (if 0 < self_max then Some (st, False, w) else None)"
| "iteration_start v logger_warn self_slug gs ec ss self_max user_params (Suc c) st w =
     (case iteration_start v logger_warn self_slug gs ec ss self_max user_params c st w of
        None \<Rightarrow> None
      | Some (st0, any_chain_effect, w0) \<Rightarrow>
          (case eval_condition v logger_warn self_slug gs ec st0 user_params w0 of
             (Inl e, w1) \<Rightarrow> None
           | (Inr (st1, condition), w1) \<Rightarrow>
               if truthy condition then
                 (case accept_steps v logger_warn ss st1 user_params any_chain_effect w1 of
                    (Inl e, w2) \<Rightarrow> None
                  | (Inr (st2, any_chain_effect'), w2) \<Rightarrow>
                      if any_chain_effect' \<and> int c + 1 < self_max
                      then Some (st2, any_chain_effect', w2) else None)
               else None))"

text \<open>
  The call that \<open>accept\<close> of a step makes on the step at a place below it, in
  iteration \<open>c\<close>: after \<open>_prepare_args\<close> and the entry hook, a \<open>Group\<close> makes its one
  pass (iteration 0) and a \<open>Repeat\<close> a pass in every iteration of its loop. Every other
  step calls no step.
\<close>

fun subcall ::
  "'w visitor \<Rightarrow> (string \<Rightarrow> 'w \<Rightarrow> 'w) \<Rightarrow> 'w call \<Rightarrow> nat \<times> place \<Rightarrow> 'w call option" where
  "subcall v logger_warn (Group sl d gs ec ss h, st, user_params, w) (c, pl) =
     (if c = 0 then
        (case prepare_args (Group sl d gs ec ss h) st user_params of
           Inl e \<Rightarrow> None
         | Inr self' \<Rightarrow>
             (case enter_group v self' st w of
                (Inl e, w1) \<Rightarrow> None
              | (Inr st1, w1) \<Rightarrow>
                  pass_call v logger_warn sl gs ec ss st1 user_params False w1 pl))
      else None)"
| "subcall v logger_warn (Repeat sl d gs ec ss h m, st, user_params, w) (c, pl) =
     (case prepare_args (Repeat sl d gs ec ss h m) st user_params of
        Inl e \<Rightarrow> None
      | Inr self' \<Rightarrow>
          (case enter_repeat v self' st w of
             (Inl e, w1) \<Rightarrow> None
           | (Inr st1, w1) \<Rightarrow>
               (case range_stop self' of
                  Inl e \<Rightarrow> None
                | Inr self_max \<Rightarrow>
                    (case iteration_start v logger_warn sl gs ec ss self_max user_params c st1 w1 of
                       None \<Rightarrow> None
                     | Some (st2, any_chain_effect, w2) \<Rightarrow>
                         pass_call v logger_warn sl gs ec ss st2 user_params any_chain_effect w2
                           pl))))"
| "subcall v logger_warn (Leaf k sl flds, st, user_params, w) p = None"
| "subcall v logger_warn (Transform tk sl f as, st, user_params, w) p = None"

text \<open>
  The call reached from a call by a path of places, one level of the tree at each: the
  call on a step at any depth below the step that \<open>accept\<close> was called on.
\<close>

fun call_at ::
  "'w visitor \<Rightarrow> (string \<Rightarrow> 'w \<Rightarrow> 'w) \<Rightarrow> 'w call \<Rightarrow> (nat \<times> place) list \<Rightarrow> 'w call option" where
  "call_at v logger_warn x [] = Some x"
| "call_at v logger_warn x (p # path) =
     (case subcall v logger_warn x p of
        None \<Rightarrow> None
      | Some y \<Rightarrow> call_at v logger_warn y path)"

section \<open>The children of a group and the passes of a loop\<close>

text \<open>
  The steps of a group in the words of the specification: each child is executed in
  declaration order on the state its predecessor left; the result is the list of the
  children's evaluations, in that order.
\<close>

fun children_evaluations ::
  "'w visitor \<Rightarrow> (string \<Rightarrow> 'w \<Rightarrow> 'w) \<Rightarrow> step list \<Rightarrow> state \<Rightarrow> pyval \<Rightarrow> 'w
     \<Rightarrow> (error + evaluation list) \<times> 'w" where
  "children_evaluations v logger_warn [] st user_params w = (Inr [], w)"
| "children_evaluations v logger_warn (s # ss) st user_params w =
     (case dict_get user_params (slug s) (VDict []) of
        Inl e \<Rightarrow> (Inl e, w)
      | Inr params \<Rightarrow>
          (case accept v logger_warn s st params w of
             (Inl e, w1) \<Rightarrow> (Inl e, w1)
           | (Inr ev, w1) \<Rightarrow>
               (case children_evaluations v logger_warn ss (state ev) user_params w1 of
                  (Inl e, w2) \<Rightarrow> (Inl e, w2)
                | (Inr evs, w2) \<Rightarrow> (Inr (ev # evs), w2))))"

text \<open>
  The loop of a \<open>Repeat\<close> as a bounded number of passes: with \<open>n\<close> iterations left, the
  guards and the entry condition are evaluated; on a false condition the loop ends;
  else the children run on the state the evaluation left (\<open>children_evaluations\<close>), and
  the loop goes on, on the state of the last child, with the iterations that remain,
  unless \<open>any_chain_effect\<close> is still false. The result is the state and
  \<open>any_chain_effect\<close> as the loop leaves them, and the number of passes in which the
  children ran.
\<close>

fun repeat_passes ::
  "'w visitor \<Rightarrow> (string \<Rightarrow> 'w \<Rightarrow> 'w) \<Rightarrow> string \<Rightarrow> step list \<Rightarrow> step option \<Rightarrow> step list
     \<Rightarrow> nat \<Rightarrow> state \<Rightarrow> pyval \<Rightarrow> bool \<Rightarrow> 'w \<Rightarrow> (error + state \<times> bool \<times> nat) \<times> 'w" where
  "repeat_passes v logger_warn self_slug gs ec ss 0 st user_params any_chain_effect w =
     (Inr (st, any_chain_effect, 0), w)"
| "repeat_passes v logger_warn self_slug gs ec ss (Suc n) st user_params any_chain_effect w =
     (case eval_condition v logger_warn self_slug gs ec st user_params w of
        (Inl e, w1) \<Rightarrow> (Inl e, w1)
      | (Inr (st1, condition), w1) \<Rightarrow>
          if \<not> truthy condition then (Inr (st1, any_chain_effect, 0), w1)
          else
            (case children_evaluations v logger_warn ss st1 user_params w1 of
               (Inl e, w2) \<Rightarrow> (Inl e, w2)
             | (Inr evs, w2) \<Rightarrow>
                 (let st2 = state (last (\<lparr>state = st1, chain_effect = False\<rparr> # evs));
                      any_chain_effect' = (any_chain_effect \<or> (\<exists>ev\<in>set evs. chain_effect ev))
                  in if \<not> any_chain_effect' then (Inr (st2, any_chain_effect', 1), w2)
                     else
                       (case repeat_passes v logger_warn self_slug gs ec ss n st2 user_params
                               any_chain_effect' w2 of
                          (Inl e, w3) \<Rightarrow> (Inl e, w3)
                        | (Inr (st3, any_chain_effect'', k), w3) \<Rightarrow>
                            (Inr (st3, any_chain_effect'', Suc k), w3)))))"

text \<open>The iterations that a \<open>Repeat\<close> has begun when its loop is left at index \<open>c\<close>.\<close>

definition iterations_begun :: "int \<Rightarrow> int \<Rightarrow> int" where
  "iterations_begun self_max c = (if self_max \<le> 0 then 0 else c + 1)"

section \<open>Executors and steps of the examples\<close>

text \<open>The hooks of the base class \<open>Visitor\<close> return the state they receive.\<close>

definition Visitor_hook :: "step \<Rightarrow> state \<Rightarrow> 'w \<Rightarrow> (error + state) \<times> 'w" where
  "Visitor_hook s st w = (Inr st, w)"

fun arg_values :: "fieldval list \<Rightarrow> pyval list" where
  "arg_values [] = []"
| "arg_values (Val x # as) = x # arg_values as"
| "arg_values (a # as) = arg_values as"

text \<open>
  An executor that logs the slug of every step it is called with, as \<open>PrintExecutor\<close>
  logs the step. An \<open>Expr\<close> stores the value of its \<open>func\<close> under \<open>_condition_\<close> and a
  \<open>Transform\<close> returns the state that its \<open>func\<close> returns, as the base class \<open>Visitor\<close>
  does; every other step leaves the state alone. The chain effect reported is what
  \<open>effect\<close> tells from the step and the log.
\<close>

fun example_visit ::
  "(step \<Rightarrow> string list \<Rightarrow> bool) \<Rightarrow> step \<Rightarrow> state \<Rightarrow> string list
     \<Rightarrow> (error + evaluation) \<times> string list" where
  "example_visit effect (Transform Expr sl f as) st log =
     (case f st (arg_values as) of
        None \<Rightarrow> (Inl (VisitorError sl), log @ [sl])
      | Some c \<Rightarrow>
          (Inr \<lparr>state = st(''_condition_'' \<mapsto> c),
                chain_effect = effect (Transform Expr sl f as) log\<rparr>, log @ [sl]))"
| "example_visit effect (Transform PlainTransform sl f as) st log =
     (case f st (arg_values as) of
        Some (VDict kvs) \<Rightarrow>
          (Inr \<lparr>state = map_of kvs,
                chain_effect = effect (Transform PlainTransform sl f as) log\<rparr>, log @ [sl])
      | _ \<Rightarrow> (Inl (VisitorError sl), log @ [sl]))"
| "example_visit effect s st log =
     (Inr \<lparr>state = st, chain_effect = effect s log\<rparr>, log @ [slug s])"

definition example_executor :: "(step \<Rightarrow> string list \<Rightarrow> bool) \<Rightarrow> string list visitor" where
  "example_executor effect =
     \<lparr>visit = example_visit effect, enter_group = Visitor_hook, exit_group = Visitor_hook,
      enter_repeat = Visitor_hook, exit_repeat = Visitor_hook\<rparr>"

text \<open>
  An executor whose every method logs the slug and returns the state it received, with
  no chain effect, as all methods of \<open>PrintExecutor\<close> but \<open>expr\<close> do.
\<close>

definition quiet_executor :: "string list visitor" where
  "quiet_executor =
     \<lparr>visit = (\<lambda>s st log. (Inr \<lparr>state = st, chain_effect = False\<rparr>, log @ [slug s])),
      enter_group = Visitor_hook, exit_group = Visitor_hook,
      enter_repeat = Visitor_hook, exit_repeat = Visitor_hook\<rparr>"

definition example_warn :: "string \<Rightarrow> string list \<Rightarrow> string list" where
  "example_warn msg log = log @ [''WARNING: '' @ msg]"

text \<open>A step has a chain effect on its first \<open>n\<close> visits and none after them.\<close>

definition effect_first :: "nat \<Rightarrow> step \<Rightarrow> string list \<Rightarrow> bool" where
  "effect_first n s log = (count_list log (slug s) < n)"

text \<open>
  Only the step of one slug has a chain effect, as only \<open>balance\<close> has in the
  \<open>InvalidChainEffectExecutor\<close> of the tests.
\<close>

definition slug_effect :: "string \<Rightarrow> step \<Rightarrow> string list \<Rightarrow> bool" where
  "slug_effect sl s log = (slug s = sl)"

text \<open>\<open>Param[int](key="max", type=int)\<close>, required and without default.\<close>

definition max_param :: param where
  "max_param = \<lparr>param_type = py_int, param_key = ''max'', param_name = [],
                 param_required = True, param_default = VNone\<rparr>"

text \<open>\<open>Ref(key="rounds", required=True)\<close>\<close>

definition rounds_ref :: ref where
  "rounds_ref = \<lparr>ref_key = ''rounds'', ref_required = True, ref_default = VNone\<rparr>"


text \<open>
  \<open>Repeat(slug="loop", max=m)\<close> without guards, entry condition and steps, and
  \<open>Repeat(slug="loop", max=3, steps=[HarvestComp(slug="harvest_comp")])\<close>. \<open>HarvestComp\<close>
  and \<open>CompAccrued\<close> are classes without fields.
\<close>

definition empty_loop :: "fieldval \<Rightarrow> step" where
  "empty_loop m = Repeat ''loop'' None [] None [] False m"

definition harvest_loop :: step where
  "harvest_loop =
     Repeat ''loop'' None [] None [Leaf HarvestComp ''harvest_comp'' []] False (Val (VInt 3))"

text \<open>An entry condition \<open>state["x"] > 0\<close> and a transformation that sets \<open>y\<close> to twice \<open>x\<close>.\<close>

definition x_positive :: callable where
  "x_positive st as = (case st ''x'' of Some (VInt x) \<Rightarrow> Some (VBool (0 < x)) | _ \<Rightarrow> None)"

definition double_x :: callable where
  "double_x st as =
     (case st ''x'' of
        Some (VInt x) \<Rightarrow> Some (VDict [(''x'', VInt x), (''y'', VInt (x * 2))])
      | _ \<Rightarrow> None)"

definition example_group :: step where
  "example_group =
     Group ''g'' None [] (Some (Transform Expr ''check'' x_positive []))
       [Transform PlainTransform ''double'' double_x []] False"

text \<open>
  A group that harvests, with a \<open>CompAccrued\<close> as guard; one with the entry condition
  \<open>x > 0\<close> instead; and one with both.
\<close>

definition guarded_group :: step where
  "guarded_group =
     Group ''harvesting'' None [Leaf CompAccrued ''comp_accrued'' []] None
       [Leaf HarvestComp ''harvest_comp'' []] False"

definition gated_group :: step where
  "gated_group =
     Group ''harvesting'' None [] (Some (Transform Expr ''check'' x_positive []))
       [Leaf HarvestComp ''harvest_comp'' []] False"

definition silent_group :: step where
  "silent_group =
     Group ''harvesting'' None [Leaf CompAccrued ''comp_accrued'' []]
       (Some (Transform Expr ''check'' x_positive []))
       [Leaf HarvestComp ''harvest_comp'' []] False"

text \<open>A guard that writes \<open>x = -1\<close> into the state, before the entry condition \<open>x > 0\<close>.\<close>

definition seed_x :: callable where
  "seed_x st as = Some (VDict [(''x'', VInt (- 1))])"

definition seeded_group :: step where
  "seeded_group =
     Group ''g'' None [Transform PlainTransform ''seed'' seed_x []]
       (Some (Transform Expr ''check'' x_positive []))
       [Transform PlainTransform ''double'' double_x []] False"

text \<open>\<open>Group(slug="main", steps=[CompAccrued(slug="comp_accrued"), CompAccrued()])\<close>\<close>

definition two_accrued :: step where
  "two_accrued =
     Group ''main'' None [] None
       [Leaf CompAccrued ''comp_accrued'' [], Leaf CompAccrued [] []] False"

text \<open>
  \<open>Repeat(slug="loop", max=2, steps=[Transform(slug="double", func=double_x)])\<close>, whose
  child changes the state.
\<close>

definition double_loop :: step where
  "double_loop =
     Repeat ''loop'' None [] None [Transform PlainTransform ''double'' double_x []] False
       (Val (VInt 2))"

text \<open>
  The guarded group two levels below the root: in a \<open>Repeat\<close> among the steps of the
  group \<open>main\<close>. For the executor of this example \<open>harvest_comp\<close> has a chain effect on
  every visit, \<open>comp_accrued\<close> from its second visit on, and no other step has one.
\<close>

definition harvesting_pipeline :: step where
  "harvesting_pipeline =
     Group ''main'' None [] None
       [Leaf LQTYAccrued ''lqty_accrued'' [],
        Repeat ''loop'' None [] None [guarded_group] False (Val (VInt 3))] False"

definition late_effect :: "step \<Rightarrow> string list \<Rightarrow> bool" where
  "late_effect s log =
     (if slug s = ''comp_accrued'' then ''comp_accrued'' \<in> set log
      else slug s = ''harvest_comp'')"

section \<open>Slugs added by a part of the walk\<close>

text \<open>
  The slugs \<open>sls\<close> are new to \<open>seen\<close>, differ from each other, are not empty, and
  \<open>seen'\<close> is \<open>seen\<close> with them.
\<close>

definition slugs_added :: "string fset \<Rightarrow> string list \<Rightarrow> string fset \<Rightarrow> bool" where
  "slugs_added seen sls seen' =
     (distinct sls \<and> fset seen' = fset seen \<union> set sls \<and> set sls \<inter> fset seen = {}
      \<and> [] \<notin> set sls)"

section \<open>Parameter resolution: properties\<close>

lemma prepare_fields_append:
  "prepare_fields sl st up (xs @ ys) =
     (case prepare_fields sl st up xs of
        Inl e \<Rightarrow> Inl e
      | Inr xs' \<Rightarrow>
          (case prepare_fields sl st up ys of Inl e \<Rightarrow> Inl e | Inr ys' \<Rightarrow> Inr (xs' @ ys')))"
  by (induction xs) (auto split: sum.splits)

lemma int_of_str_5: "int_of_str ''5'' = Some 5"
  by code_simp

lemma int_of_str_abc: "int_of_str ''abc'' = None"
  by code_simp

text \<open>
  Claim C5. A step has a required \<open>Param\<close> in a field: a plain step after formal
  parameters that resolve, or a \<open>Repeat\<close> in its \<open>max\<close>. Let \<open>raw\<close> be the value found
  in the user parameters under the param's key, or the param's default when the key is
  absent. If \<open>raw\<close> is \<open>None\<close> or the empty string, resolution raises
  \<open>MissingParamError\<close> with the slug of the step and the key of the param. Otherwise, if
  the param's type does not accept \<open>raw\<close>, it raises \<open>InvalidParamTypeError\<close>; and if the
  type converts \<open>raw\<close> to \<open>x\<close>, whatever the type of \<open>raw\<close> is, the field resolves to
  \<open>x\<close>.
\<close>

theorem prepare_args_required_param:
  assumes "param_required p"
    and "dict_get up (param_key p) (param_default p) = Inr raw"
    and "field_value fld = P p"
    and "prepare_fields sl st up pre = Inr pre'"
  shows "(raw = VNone \<or> raw = VStr [] \<longrightarrow>
            prepare_args (Leaf k sl (pre @ fld # post)) st up
              = Inl (MissingParamError sl (param_key p))
            \<and> prepare_args (Repeat sl d gs ec ss h (P p)) st up
              = Inl (MissingParamError sl (param_key p)))
       \<and> (raw \<noteq> VNone \<and> raw \<noteq> VStr [] \<and> conv (param_type p) raw = None \<longrightarrow>
            prepare_args (Leaf k sl (pre @ fld # post)) st up
              = Inl (InvalidParamTypeError sl (param_key p) (py_type raw))
            \<and> prepare_args (Repeat sl d gs ec ss h (P p)) st up
              = Inl (InvalidParamTypeError sl (param_key p) (py_type raw)))
       \<and> (raw \<noteq> VNone \<and> raw \<noteq> VStr [] \<and> conv (param_type p) raw = Some x \<longrightarrow>
            prepare_field sl st up fld = Inr x
            \<and> (prepare_fields sl st up post = Inr post' \<longrightarrow>
                 prepare_args (Leaf k sl (pre @ fld # post)) st up
                   = Inr (Leaf k sl (pre' @ fld\<lparr>field_value := Val x\<rparr> # post')))
            \<and> prepare_args (Repeat sl d gs ec ss h (P p)) st up
              = Inr (Repeat sl d gs ec ss h (Val x)))"
  using assms
  by (auto simp: prepare_fields_append prepare_field_def split: sum.splits)

text \<open>
  \<open>Repeat(slug="loop", max=Param[int](key="max", type=int))\<close>: without a user value,
  with the user value \<open>"abc"\<close>, and with the user value \<open>"5"\<close>, a string that \<open>int\<close>
  accepts.
\<close>

theorem prepare_args_required_param_witness:
  "prepare_args (empty_loop (P max_param)) Map.empty (VDict [])
     = Inl (MissingParamError ''loop'' ''max'')
   \<and> prepare_args (empty_loop (P max_param)) Map.empty (VDict [(''max'', VStr ''abc'')])
     = Inl (InvalidParamTypeError ''loop'' ''max'' ''str'')
   \<and> prepare_args (empty_loop (P max_param)) Map.empty (VDict [(''max'', VStr ''5'')])
     = Inr (empty_loop (Val (VInt 5)))"
  using prepare_args_required_param [where p = max_param and up = "VDict []" and raw = VNone
          and fld = "\<lparr>field_name = ''max'', formal_param = Repeat_max, field_value = P max_param\<rparr>"
          and sl = "''loop''" and st = Map.empty and pre = "[]" and pre' = "[]"
          and d = None and gs = "[]" and ec = None and ss = "[]" and h = False]
        prepare_args_required_param [where p = max_param
          and up = "VDict [(''max'', VStr ''abc'')]" and raw = "VStr ''abc''"
          and fld = "\<lparr>field_name = ''max'', formal_param = Repeat_max, field_value = P max_param\<rparr>"
          and sl = "''loop''" and st = Map.empty and pre = "[]" and pre' = "[]"
          and d = None and gs = "[]" and ec = None and ss = "[]" and h = False]
        prepare_args_required_param [where p = max_param
          and up = "VDict [(''max'', VStr ''5'')]" and raw = "VStr ''5''" and x = "VInt 5"
          and fld = "\<lparr>field_name = ''max'', formal_param = Repeat_max, field_value = P max_param\<rparr>"
          and sl = "''loop''" and st = Map.empty and pre = "[]" and pre' = "[]"
          and d = None and gs = "[]" and ec = None and ss = "[]" and h = False]
  by (simp add: empty_loop_def max_param_def py_int_def int_of_str_5 int_of_str_abc
        del: prepare_args.simps)

text \<open>
  Claim C6, as stated, fails on the second half: the error raised for a required \<open>Ref\<close>
  whose key the state lacks is not of the family \<open>PipelineExecutionError\<close>. The step is
  \<open>Repeat(slug="loop", max=Ref(key="rounds", required=True))\<close>, the state is empty.
\<close>

theorem invalid_reference_family_counterexample:
  "prepare_args (empty_loop (R rounds_ref)) Map.empty (VDict [])
     = Inl (InvalidReferenceError ''loop'' ''rounds'')
   \<and> family (InvalidReferenceError ''loop'' ''rounds'') \<noteq> PipelineExecutionError"
  by (simp add: empty_loop_def rounds_ref_def prepare_field_def state_get_def)

text \<open>
  Claim C6, amended. A step has a required \<open>Ref\<close> without default in a field (a plain
  step after formal parameters that resolve, or a \<open>Repeat\<close> in its \<open>max\<close>), and the
  state has no value under the ref's key. Then resolution raises
  \<open>InvalidReferenceError\<close> with the slug of the step and the key of the ref, and this
  error is a \<open>PipelineDefinitionError\<close>, as errors.py declares it.
\<close>

theorem prepare_args_required_ref:
  assumes "ref_required r" and "st (ref_key r) = None" and "ref_default r = VNone"
    and "field_value fld = R r"
    and "prepare_fields sl st up pre = Inr pre'"
  shows "prepare_args (Leaf k sl (pre @ fld # post)) st up
           = Inl (InvalidReferenceError sl (ref_key r))
       \<and> prepare_args (Repeat sl d gs ec ss h (R r)) st up
           = Inl (InvalidReferenceError sl (ref_key r))
       \<and> family (InvalidReferenceError sl (ref_key r)) = PipelineDefinitionError"
  using assms
  by (auto simp: prepare_fields_append prepare_field_def state_get_def split: sum.splits)

theorem prepare_args_required_ref_witness:
  "prepare_args (empty_loop (R rounds_ref)) Map.empty (VDict [])
     = Inl (InvalidReferenceError ''loop'' ''rounds'')
   \<and> family (InvalidReferenceError ''loop'' ''rounds'') = PipelineDefinitionError"
  using prepare_args_required_ref [where r = rounds_ref and st = Map.empty
          and fld = "\<lparr>field_name = ''max'', formal_param = Repeat_max, field_value = R rounds_ref\<rparr>"
          and sl = "''loop''" and up = "VDict []" and pre = "[]" and pre' = "[]"
          and d = None and gs = "[]" and ec = None and ss = "[]" and h = False]
  by (simp add: empty_loop_def rounds_ref_def del: prepare_args.simps)

section \<open>Initial values: properties\<close>




section \<open>Slug assignment: properties\<close>

lemma first1_sub_nonempty: "first1_sub s = [] \<longleftrightarrow> s = []"
  by (cases s rule: first1_sub.cases) auto

lemma all2_sub_nonempty: "all2_sub s = [] \<longleftrightarrow> s = []"
  by (cases s rule: all2_sub.cases) auto

lemma camel_to_snake_nonempty: "camel_to_snake s = [] \<longleftrightarrow> s = []"
  by (simp add: camel_to_snake_def all2_sub_nonempty first1_sub_nonempty)

lemma class_name_nonempty: "class_name s \<noteq> []"
proof (cases s)
  case (Leaf k sl flds)
  then show ?thesis by (cases k) simp_all
next
  case (Transform tk sl f as)
  then show ?thesis by (cases tk) simp_all
qed simp_all

lemma find_slug_result:
  "find_slug seen b sl i |\<notin>| seen
   \<and> (sl |\<notin>| seen \<longrightarrow> find_slug seen b sl i = sl)
   \<and> (sl |\<in>| seen \<longrightarrow>
        (\<exists>k\<ge>i. find_slug seen b sl i = format_slug b k
              \<and> (\<forall>j. i \<le> j \<and> j < k \<longrightarrow> format_slug b j |\<in>| seen)))"
proof (induction seen b sl i rule: find_slug.induct)
  case (1 seen b sl i)
  show ?case
  proof (cases "sl |\<in>| seen")
    case False
    then show ?thesis by (simp add: find_slug.simps [where sl = sl])
  next
    case True
    note IH = "1.IH" [OF True]
    have eq: "find_slug seen b sl i = find_slug seen b (format_slug b i) (i + 1)"
      using True by (simp add: find_slug.simps [where sl = sl])
    show ?thesis
    proof (cases "format_slug b i |\<in>| seen")
      case False
      with IH eq True show ?thesis
        by (auto intro!: exI [where x = i])
    next
      case fi: True
      with IH obtain k where k: "i + 1 \<le> k"
        "find_slug seen b (format_slug b i) (i + 1) = format_slug b k"
        "\<forall>j. i + 1 \<le> j \<and> j < k \<longrightarrow> format_slug b j |\<in>| seen"
        by auto
      have "\<forall>j. i \<le> j \<and> j < k \<longrightarrow> format_slug b j |\<in>| seen"
      proof (intro allI impI)
        fix j assume "i \<le> j \<and> j < k"
        then show "format_slug b j |\<in>| seen"
          using fi k(3) by (cases "j = i") auto
      qed
      with k IH eq True show ?thesis
        by (auto intro!: exI [where x = k])
    qed
  qed
qed

lemma find_slug_nonempty:
  assumes "b \<noteq> []"
  shows "find_slug seen b b i \<noteq> []"
proof (cases "b |\<in>| seen")
  case False
  with find_slug_result [of seen b b i] have "find_slug seen b b i = b"
    by blast
  with assms show ?thesis by simp
next
  case True
  with find_slug_result [of seen b b i]
  obtain k where "find_slug seen b b i = format_slug b k" by blast
  then show ?thesis by (simp add: format_slug_def)
qed

lemma slugs_added_append:
  "slugs_added seen a seen1 \<Longrightarrow> slugs_added seen1 b seen2 \<Longrightarrow> slugs_added seen (a @ b) seen2"
  by (auto simp: slugs_added_def)

lemma slugs_added_Nil: "slugs_added seen [] seen"
  by (simp add: slugs_added_def)

lemma init_slug_added:
  "init_slug seen el = Inr (el', seen') \<Longrightarrow> slugs_added seen [slug el'] seen'"
proof (cases "slug el = []")
  case True
  assume a: "init_slug seen el = Inr (el', seen')"
  let ?b = "camel_to_snake (class_name el)"
  have ne: "find_slug seen ?b ?b 1 \<noteq> []"
    by (rule find_slug_nonempty) (simp add: camel_to_snake_nonempty class_name_nonempty)
  have ns: "find_slug seen ?b ?b 1 |\<notin>| seen"
    using find_slug_result [of seen ?b ?b 1] by simp
  have sl: "slug (set_slug el x) = x" for x by (cases el) simp_all
  from a True ne ns show ?thesis
    by (auto simp: init_slug_def slugs_added_def Let_def sl)
next
  case False
  assume "init_slug seen el = Inr (el', seen')"
  with False show ?thesis
    by (auto simp: init_slug_def slugs_added_def split: if_splits)
qed

lemma init_slugs_added:
  "(\<forall>s' seen'. init_slugs seen s = Inr (s', seen') \<longrightarrow> slugs_added seen (map slug (walk s')) seen')"
  "(\<forall>xs' seen'. init_slugs_list seen xs = Inr (xs', seen')
       \<longrightarrow> slugs_added seen (map slug (concat (map walk xs'))) seen')"
  "(\<forall>ec' seen'. init_slugs_option seen ec = Inr (ec', seen')
       \<longrightarrow> slugs_added seen (map slug (case ec' of None \<Rightarrow> [] | Some e \<Rightarrow> walk e)) seen')"
proof (induction seen s and seen xs and seen ec
        rule: init_slugs_init_slugs_list_init_slugs_option.induct)
  case (1 seen k sl flds)
  show ?case
  proof (intro allI impI)
    fix s' seen' assume a: "init_slugs seen (Leaf k sl flds) = Inr (s', seen')"
    then have "init_slug seen (Leaf k sl flds) = Inr (s', seen')" by simp
    from init_slug_added [OF this] have "slugs_added seen [slug s'] seen'" .
    moreover from a have "walk s' = [s']"
      by (auto simp: init_slug_def Let_def split: if_splits)
    ultimately show "slugs_added seen (map slug (walk s')) seen'" by simp
  qed
next
  case (2 seen tk sl f as)
  show ?case
  proof (intro allI impI)
    fix s' seen' assume a: "init_slugs seen (Transform tk sl f as) = Inr (s', seen')"
    then have "init_slug seen (Transform tk sl f as) = Inr (s', seen')" by simp
    from init_slug_added [OF this] have "slugs_added seen [slug s'] seen'" .
    moreover from a have "walk s' = [s']"
      by (auto simp: init_slug_def Let_def split: if_splits)
    ultimately show "slugs_added seen (map slug (walk s')) seen'" by simp
  qed
next
  case (3 seen sl d gs ec ss h)
  show ?case
  proof (intro allI impI)
    fix s' seen' assume a: "init_slugs seen (Group sl d gs ec ss h) = Inr (s', seen')"
    then obtain el seen1 gs' seen2 ec' seen3 ss' where
      el: "init_slug seen (Group sl d gs ec ss h) = Inr (el, seen1)"
      and gs: "init_slugs_list seen1 gs = Inr (gs', seen2)"
      and ec: "init_slugs_option seen2 ec = Inr (ec', seen3)"
      and ss: "init_slugs_list seen3 ss = Inr (ss', seen')"
      and s': "s' = Group (slug el) d gs' ec' ss' h"
      by (auto split: sum.splits prod.splits)
    note a1 = init_slug_added [OF el]
    from "3.IH"(1) [OF el refl] gs
    have a2: "slugs_added seen1 (map slug (concat (map walk gs'))) seen2" by blast
    from "3.IH"(2) [OF el refl gs refl] ec
    have a3: "slugs_added seen2 (map slug (case ec' of None \<Rightarrow> [] | Some e \<Rightarrow> walk e)) seen3"
      by blast
    from "3.IH"(3) [OF el refl gs refl ec refl] ss
    have a4: "slugs_added seen3 (map slug (concat (map walk ss'))) seen'" by blast
    from slugs_added_append [OF a1 slugs_added_append [OF a2 slugs_added_append [OF a3 a4]]]
    show "slugs_added seen (map slug (walk s')) seen'"
      by (simp add: s')
  qed
next
  case (4 seen sl d gs ec ss h m)
  show ?case
  proof (intro allI impI)
    fix s' seen' assume a: "init_slugs seen (Repeat sl d gs ec ss h m) = Inr (s', seen')"
    then obtain el seen1 gs' seen2 ec' seen3 ss' where
      el: "init_slug seen (Repeat sl d gs ec ss h m) = Inr (el, seen1)"
      and gs: "init_slugs_list seen1 gs = Inr (gs', seen2)"
      and ec: "init_slugs_option seen2 ec = Inr (ec', seen3)"
      and ss: "init_slugs_list seen3 ss = Inr (ss', seen')"
      and s': "s' = Repeat (slug el) d gs' ec' ss' h m"
      by (auto split: sum.splits prod.splits)
    note a1 = init_slug_added [OF el]
    from "4.IH"(1) [OF el refl] gs
    have a2: "slugs_added seen1 (map slug (concat (map walk gs'))) seen2" by blast
    from "4.IH"(2) [OF el refl gs refl] ec
    have a3: "slugs_added seen2 (map slug (case ec' of None \<Rightarrow> [] | Some e \<Rightarrow> walk e)) seen3"
      by blast
    from "4.IH"(3) [OF el refl gs refl ec refl] ss
    have a4: "slugs_added seen3 (map slug (concat (map walk ss'))) seen'" by blast
    from slugs_added_append [OF a1 slugs_added_append [OF a2 slugs_added_append [OF a3 a4]]]
    show "slugs_added seen (map slug (walk s')) seen'"
      by (simp add: s')
  qed
next
  case (5 seen)
  show ?case by (simp add: slugs_added_Nil)
next
  case (6 seen s rest)
  show ?case
  proof (intro allI impI)
    fix xs' seen' assume "init_slugs_list seen (s # rest) = Inr (xs', seen')"
    then obtain s' seen1 rest' where
      s: "init_slugs seen s = Inr (s', seen1)"
      and r: "init_slugs_list seen1 rest = Inr (rest', seen')"
      and xs': "xs' = s' # rest'"
      by (auto split: sum.splits prod.splits)
    from "6.IH"(1) s have a1: "slugs_added seen (map slug (walk s')) seen1" by blast
    from "6.IH"(2) [OF s refl] r
    have a2: "slugs_added seen1 (map slug (concat (map walk rest'))) seen'" by blast
    from slugs_added_append [OF a1 a2]
    show "slugs_added seen (map slug (concat (map walk xs'))) seen'"
      by (simp add: xs')
  qed
next
  case (7 seen)
  show ?case by (simp add: slugs_added_Nil)
next
  case (8 seen e)
  then show ?case by (auto split: sum.splits prod.splits)
qed

lemma camel_to_snake_Transform: "camel_to_snake ''Transform'' = ''transform''"
  by code_simp

lemma camel_to_snake_CompAccrued: "camel_to_snake ''CompAccrued'' = ''comp_accrued''"
  by code_simp

lemma str_nat_1: "str_nat (Suc 0) = ''1''"
  by code_simp

lemma slug_set_slug: "slug (set_slug el sl) = sl"
  by (cases el) simp_all

lemma kind_words_snake:
  "camel_to_snake (kind_name k) = underscore_separated (kind_words k)"
  by (cases k; simp only: kind_name.simps kind_words.simps; code_simp)

lemma kind_words_name: "concat (kind_words k) = map lower (kind_name k)"
  by (cases k; simp only: kind_name.simps kind_words.simps; code_simp)

lemma tkind_words_snake:
  "camel_to_snake (tkind_name tk) = underscore_separated (tkind_words tk)"
  by (cases tk; simp only: tkind_name.simps tkind_words.simps; code_simp)

lemma tkind_words_name: "concat (tkind_words tk) = map lower (tkind_name tk)"
  by (cases tk; simp only: tkind_name.simps tkind_words.simps; code_simp)

lemma camel_to_snake_Group: "camel_to_snake ''Group'' = ''group''"
  by code_simp

lemma camel_to_snake_Repeat: "camel_to_snake ''Repeat'' = ''repeat''"
  by code_simp

lemma lower_Group: "map lower ''Group'' = ''group''"
  by code_simp

lemma lower_Repeat: "map lower ''Repeat'' = ''repeat''"
  by code_simp

lemma class_words_snake:
  "camel_to_snake (class_name el) = underscore_separated (class_words el)"
  by (cases el)
     (simp_all add: kind_words_snake tkind_words_snake camel_to_snake_Group camel_to_snake_Repeat)

lemma class_words_name: "concat (class_words el) = map lower (class_name el)"
  by (cases el)
     (simp_all only: class_name.simps class_words.simps kind_words_name tkind_words_name
        lower_Group lower_Repeat concat.simps append_Nil2)

lemma of_char_lower:
  "(of_char (lower c) :: nat) =
     (if is_upper c
         \<or> (192 \<le> (of_char c :: nat) \<and> (of_char c :: nat) \<le> 222 \<and> (of_char c :: nat) \<noteq> 215)
      then of_char c + 32 else of_char c)"
  by (auto simp: lower_def is_upper_def)

lemma lower_not_upper: "\<not> is_upper (lower c)"
  unfolding is_upper_def [of "lower c"] of_char_lower
  by (auto simp: is_upper_def)

lemma lower_underscore: "lower c = CHR ''_'' \<longleftrightarrow> c = CHR ''_''"
proof
  assume "lower c = CHR ''_''"
  then have "(of_char (lower c) :: nat) = of_char CHR ''_''" by simp
  then have "(of_char c :: nat) = of_char CHR ''_''"
    unfolding of_char_lower by (auto simp: is_upper_def split: if_splits)
  then show "c = CHR ''_''" by (simp only: of_char_eq_iff)
next
  assume "c = CHR ''_''"
  then show "lower c = CHR ''_''" by (simp add: lower_def is_upper_def)
qed

lemma first1_sub_letters:
  "filter (\<lambda>c. c \<noteq> CHR ''_'') (first1_sub s) = filter (\<lambda>c. c \<noteq> CHR ''_'') s"
proof (induction s rule: first1_sub.induct)
  case (1 c u l rest)
  have "filter (\<lambda>c. c \<noteq> CHR ''_'') (takeWhile is_lower rest @ dropWhile is_lower rest)
      = filter (\<lambda>c. c \<noteq> CHR ''_'') rest" by simp
  then have "filter (\<lambda>c. c \<noteq> CHR ''_'') (takeWhile is_lower rest)
        @ filter (\<lambda>c. c \<noteq> CHR ''_'') (dropWhile is_lower rest)
      = filter (\<lambda>c. c \<noteq> CHR ''_'') rest" by (simp only: filter_append)
  with 1 show ?case by auto
qed simp_all

lemma all2_sub_letters:
  "filter (\<lambda>c. c \<noteq> CHR ''_'') (all2_sub s) = filter (\<lambda>c. c \<noteq> CHR ''_'') s"
  by (induction s rule: all2_sub.induct) auto

lemma camel_to_snake_letters:
  "filter (\<lambda>c. c \<noteq> CHR ''_'') (camel_to_snake name)
     = map lower (filter (\<lambda>c. c \<noteq> CHR ''_'') name)"
proof -
  have "filter (\<lambda>c. c \<noteq> CHR ''_'') (map lower xs) = map lower (filter (\<lambda>c. c \<noteq> CHR ''_'') xs)"
    for xs
    by (induction xs) (auto simp: lower_underscore)
  then show ?thesis
    by (simp add: camel_to_snake_def all2_sub_letters first1_sub_letters)
qed

lemma camel_to_snake_lowercase: "\<forall>c\<in>set (camel_to_snake name). \<not> is_upper c"
  by (auto simp: camel_to_snake_def lower_not_upper)

lemma upper_not_lower: "is_upper c \<Longrightarrow> \<not> is_lower c \<and> \<not> is_digit c"
  by (auto simp: is_upper_def is_lower_def is_digit_def)

lemma underscore_class:
  "\<not> is_upper CHR ''_''" "\<not> is_lower CHR ''_''" "\<not> is_digit CHR ''_''"
  by (simp_all add: is_upper_def is_lower_def is_digit_def)

lemma all2_sub_Cons:
  "all2_sub (a # b # rest) =
     (if (is_lower a \<or> is_digit a) \<and> is_upper b
      then a # CHR ''_'' # all2_sub (b # rest) else a # all2_sub (b # rest))"
proof -
  have "is_upper b \<Longrightarrow> all2_sub (b # rest) = b # all2_sub rest"
    using upper_not_lower [of b] by (cases rest) auto
  then show ?thesis by auto
qed

lemma all2_sub_lowers:
  "list_all is_lower xs \<Longrightarrow>
     all2_sub (a # xs @ ys) = butlast (a # xs) @ all2_sub (last (a # xs) # ys)"
proof (induction xs arbitrary: a)
  case Nil
  then show ?case by simp
next
  case (Cons x xs)
  from Cons.prems have x: "is_lower x" and xs: "list_all is_lower xs" by simp_all
  from x have nu: "\<not> is_upper x" using upper_not_lower [of x] by blast
  have "all2_sub (a # (x # xs) @ ys) = a # all2_sub (x # xs @ ys)"
    using nu by (simp add: all2_sub_Cons del: all2_sub.simps)
  also have "\<dots> = a # butlast (x # xs) @ all2_sub (last (x # xs) # ys)"
    using Cons.IH [OF xs, of x] by simp
  finally show ?case by simp
qed

lemma snake_from_lowers:
  "list_all is_lower xs \<Longrightarrow> snake_from p (xs @ ys) = xs @ snake_from (last (p # xs)) ys"
proof (induction xs arbitrary: p)
  case Nil
  then show ?case by simp
next
  case (Cons x xs)
  from Cons.prems have x: "is_lower x" and xs: "list_all is_lower xs" by simp_all
  from x have nu: "\<not> is_upper x" using upper_not_lower [of x] by blast
  from nu Cons.IH [OF xs, of x] show ?case by simp
qed

lemma head_from_lower: "is_lower q \<Longrightarrow> head_from q s = snake_from q s"
  by (cases s) auto

lemma takeWhile_lowers: "list_all is_lower (takeWhile is_lower xs)"
  by (induction xs) auto

lemma all2_first1:
  "all2_sub (p # first1_sub s) = p # head_from p s"
proof (induction s arbitrary: p rule: first1_sub.induct)
  case (1 c u l rest)
  let ?tw = "takeWhile is_lower rest" and ?dw = "dropWhile is_lower rest"
  show ?case
  proof (cases "c \<noteq> CHR 0x0A \<and> is_upper u \<and> is_lower l")
    case True
    then have m: "c \<noteq> CHR 0x0A" "is_upper u" "is_lower l" by simp_all
    let ?q = "last (l # ?tw)"
    have lows: "list_all is_lower (l # ?tw)" using m(3) takeWhile_lowers by simp
    then have q: "is_lower ?q"
      by (metis last_in_set list.distinct(1) list_all_iff)
    from m(3) have nul: "\<not> is_upper l" using upper_not_lower [of l] by blast
    have f: "first1_sub (c # u # l # rest) = c # CHR ''_'' # u # l # ?tw @ first1_sub ?dw"
      using True by simp
    have IH: "all2_sub (?q # first1_sub ?dw) = ?q # head_from ?q ?dw"
      using "1.IH"(1) [OF True] .
    have a: "all2_sub (l # ?tw @ first1_sub ?dw) = butlast (l # ?tw) @ ?q # snake_from ?q ?dw"
      using all2_sub_lowers [OF takeWhile_lowers, of l rest "first1_sub ?dw"] IH
        head_from_lower [OF q, of ?dw]
      by simp
    have b: "butlast (l # ?tw) @ ?q # snake_from ?q ?dw = l # ?tw @ snake_from ?q ?dw"
      using append_butlast_last_id [of "l # ?tw"] by (metis append.assoc append_Cons append_Nil list.distinct(1))
    have s: "snake_from l rest = ?tw @ snake_from ?q ?dw"
      using snake_from_lowers [OF takeWhile_lowers, of l rest ?dw] by simp
    have t: "all2_sub (c # first1_sub (c # u # l # rest))
               = c # c # CHR ''_'' # u # l # ?tw @ snake_from ?q ?dw" if "False"
      using that by simp
    have inner: "all2_sub (c # CHR ''_'' # u # l # ?tw @ first1_sub ?dw)
                   = c # CHR ''_'' # u # l # ?tw @ snake_from ?q ?dw"
      using nul a b by (simp add: all2_sub_Cons underscore_class del: all2_sub.simps)
    have sn: "snake_from c (u # l # rest) = CHR ''_'' # u # l # ?tw @ snake_from ?q ?dw"
      using m nul s by simp
    show ?thesis
      unfolding f using inner sn
      by (simp add: all2_sub_Cons [of p c] del: all2_sub.simps)
  next
    case False
    have f: "first1_sub (c # u # l # rest) = c # first1_sub (u # l # rest)"
      using False by (subst first1_sub.simps(1)) (simp only: if_False)
    have IH: "all2_sub (c # first1_sub (u # l # rest)) = c # head_from c (u # l # rest)"
      using "1.IH"(2) [OF False] .
    have hs: "head_from c (u # l # rest) = snake_from c (u # l # rest)"
      using False by auto
    show ?thesis
      unfolding f using IH hs
      by (simp add: all2_sub_Cons [of p c] del: all2_sub.simps)
  qed
qed (auto simp: all2_sub_Cons simp del: all2_sub.simps(1))

lemma camel_to_snake_snake_case: "camel_to_snake name = snake_case name"
proof (cases name)
  case Nil
  then show ?thesis by (simp add: camel_to_snake_def snake_case_def)
next
  case (Cons c cs)
  have ne: "first1_sub (c # cs) \<noteq> []"
    by (cases "c # cs" rule: first1_sub.cases) auto
  then obtain x xs where x: "first1_sub (c # cs) = x # xs" by (cases "first1_sub (c # cs)") auto
  have "all2_sub (CHR ''_'' # first1_sub (c # cs)) = CHR ''_'' # all2_sub (first1_sub (c # cs))"
    unfolding x by (simp add: all2_sub_Cons underscore_class del: all2_sub.simps)
  moreover have "all2_sub (CHR ''_'' # first1_sub (c # cs)) = CHR ''_'' # head_from CHR ''_'' (c # cs)"
    by (rule all2_first1)
  ultimately have "all2_sub (first1_sub (c # cs)) = c # snake_from c cs"
    by (simp add: underscore_class)
  with Cons show ?thesis by (simp add: camel_to_snake_def snake_case_def)
qed

text \<open>
  Claim C7. Every step in the tree of a constructed pipeline has a slug that is not
  empty and that no other step of the tree has. In the loop of \<open>_init_slugs\<close> a step
  without a slug receives \<open>camel_to_snake\<close> of its class name when no step before it
  has that slug, and else that name with \<open>_k\<close> appended, for the first \<open>k\<close> from 1 on
  that gives a slug not seen before. \<open>camel_to_snake\<close> of the name of a step class is
  the lowercase, underscore-separated form of the name: the words of the name, which
  in lower case make up the name, joined by underscores. Of any name, \<open>camel_to_snake\<close>
  is the name in lower case with an underscore before every letter at which a word
  begins (\<open>snake_case\<close>); it has no upper-case letter, and apart from underscores it
  is the name in lower case.
  Two sibling \<open>Transform\<close> steps without slugs receive \<open>transform\<close> and \<open>transform_1\<close>.
\<close>

theorem pipeline_slugs_unique:
  "(Pipeline r = Inr p \<longrightarrow>
      distinct (map slug (walk (root p))) \<and> [] \<notin> set (map slug (walk (root p))))
   \<and> (slug el = [] \<longrightarrow>
        (\<exists>sl. init_slug seen el = Inr (set_slug el sl, finsert sl seen)
            \<and> sl |\<notin>| seen
            \<and> (camel_to_snake (class_name el) |\<notin>| seen \<longrightarrow> sl = camel_to_snake (class_name el))
            \<and> (camel_to_snake (class_name el) |\<in>| seen \<longrightarrow>
                 (\<exists>k\<ge>1. sl = format_slug (camel_to_snake (class_name el)) k
                    \<and> (\<forall>j. 1 \<le> j \<and> j < k
                          \<longrightarrow> format_slug (camel_to_snake (class_name el)) j |\<in>| seen)))))
   \<and> camel_to_snake (class_name el) = underscore_separated (class_words el)
   \<and> concat (class_words el) = map lower (class_name el)
   \<and> camel_to_snake name = snake_case name
   \<and> (\<forall>c\<in>set (camel_to_snake name). \<not> is_upper c)
   \<and> filter (\<lambda>c. c \<noteq> CHR ''_'') (camel_to_snake name)
       = map lower (filter (\<lambda>c. c \<noteq> CHR ''_'') name)
   \<and> Pipeline (Some (Group ''main'' None [] None
         [Transform PlainTransform [] f [], Transform PlainTransform [] g []] False))
       = Inr \<lparr>root = Group ''main'' None [] None
           [Transform PlainTransform ''transform'' f [],
            Transform PlainTransform ''transform_1'' g []] False\<rparr>"
proof (intro conjI impI)
  assume "Pipeline r = Inr p"
  then obtain seen' where
    "init_slugs {||} (case r of None \<Rightarrow> Group ''main'' None [] None [] False | Some s \<Rightarrow> s)
       = Inr (root p, seen')"
    by (auto simp: Pipeline_def split: sum.splits prod.splits)
  with init_slugs_added(1) have "slugs_added {||} (map slug (walk (root p))) seen'"
    by blast
  then show "distinct (map slug (walk (root p)))" and "[] \<notin> set (map slug (walk (root p)))"
    by (simp_all add: slugs_added_def)
next
  assume "slug el = []"
  then have "init_slug seen el
      = Inr (set_slug el (find_slug seen (camel_to_snake (class_name el))
                            (camel_to_snake (class_name el)) 1),
             finsert (find_slug seen (camel_to_snake (class_name el))
                            (camel_to_snake (class_name el)) 1) seen)"
    by (simp add: init_slug_def Let_def)
  with find_slug_result [of seen "camel_to_snake (class_name el)"
         "camel_to_snake (class_name el)" 1]
  show "\<exists>sl. init_slug seen el = Inr (set_slug el sl, finsert sl seen)
            \<and> sl |\<notin>| seen
            \<and> (camel_to_snake (class_name el) |\<notin>| seen \<longrightarrow> sl = camel_to_snake (class_name el))
            \<and> (camel_to_snake (class_name el) |\<in>| seen \<longrightarrow>
                 (\<exists>k\<ge>1. sl = format_slug (camel_to_snake (class_name el)) k
                    \<and> (\<forall>j. 1 \<le> j \<and> j < k
                          \<longrightarrow> format_slug (camel_to_snake (class_name el)) j |\<in>| seen)))"
    by blast
next
  show "camel_to_snake (class_name el) = underscore_separated (class_words el)"
    by (rule class_words_snake)
next
  show "concat (class_words el) = map lower (class_name el)"
    by (rule class_words_name)
next
  show "camel_to_snake name = snake_case name"
    by (rule camel_to_snake_snake_case)
next
  show "\<forall>c\<in>set (camel_to_snake name). \<not> is_upper c"
    by (rule camel_to_snake_lowercase)
next
  show "filter (\<lambda>c. c \<noteq> CHR ''_'') (camel_to_snake name)
       = map lower (filter (\<lambda>c. c \<noteq> CHR ''_'') name)"
    by (rule camel_to_snake_letters)
next
  show "Pipeline (Some (Group ''main'' None [] None
         [Transform PlainTransform [] f [], Transform PlainTransform [] g []] False))
       = Inr \<lparr>root = Group ''main'' None [] None
           [Transform PlainTransform ''transform'' f [],
            Transform PlainTransform ''transform_1'' g []] False\<rparr>"
    by (simp add: Pipeline_def init_slug_def Let_def find_slug.simps camel_to_snake_Transform
          format_slug_def str_nat_1)
qed

text \<open>
  A group \<open>main\<close> with a \<open>CompAccrued\<close> that has the slug \<open>comp_accrued\<close> and one that
  has none: the second receives \<open>comp_accrued_1\<close>. A \<open>HarvestLQTY\<close> and a
  \<open>LQTYAccrued\<close> without slug, the first steps seen, receive \<open>harvest_lqty\<close> and
  \<open>lqty_accrued\<close>.
\<close>

theorem pipeline_slugs_unique_witness:
  "Pipeline (Some two_accrued)
     = Inr \<lparr>root = Group ''main'' None [] None
                [Leaf CompAccrued ''comp_accrued'' [], Leaf CompAccrued ''comp_accrued_1'' []]
                False\<rparr>
   \<and> distinct [''main'', ''comp_accrued'', ''comp_accrued_1'']
   \<and> init_slug {|''main'', ''comp_accrued''|} (Leaf CompAccrued [] [])
       = Inr (Leaf CompAccrued ''comp_accrued_1'' [],
              {|''comp_accrued_1'', ''main'', ''comp_accrued''|})
   \<and> init_slug {||} (Leaf HarvestLQTY [] [])
       = Inr (Leaf HarvestLQTY ''harvest_lqty'' [], {|''harvest_lqty''|})
   \<and> init_slug {||} (Leaf LQTYAccrued [] [])
       = Inr (Leaf LQTYAccrued ''lqty_accrued'' [], {|''lqty_accrued''|})"
proof -
  have p: "Pipeline (Some two_accrued)
     = Inr \<lparr>root = Group ''main'' None [] None
                [Leaf CompAccrued ''comp_accrued'' [], Leaf CompAccrued ''comp_accrued_1'' []]
                False\<rparr>"
    by (simp add: two_accrued_def Pipeline_def init_slug_def Let_def find_slug.simps
          camel_to_snake_CompAccrued format_slug_def str_nat_1)
  have i: "init_slug {|''main'', ''comp_accrued''|} (Leaf CompAccrued [] [])
       = Inr (Leaf CompAccrued ''comp_accrued_1'' [],
              {|''comp_accrued_1'', ''main'', ''comp_accrued''|})"
    by (simp add: init_slug_def Let_def find_slug.simps camel_to_snake_CompAccrued
          format_slug_def str_nat_1)
  from pipeline_slugs_unique [where r = "Some two_accrued"
         and p = "\<lparr>root = Group ''main'' None [] None
                [Leaf CompAccrued ''comp_accrued'' [], Leaf CompAccrued ''comp_accrued_1'' []]
                False\<rparr>"
         and el = "Leaf CompAccrued [] []" and seen = "{|''main'', ''comp_accrued''|}"] p
  have d: "distinct [''main'', ''comp_accrued'', ''comp_accrued_1'']"
    by simp
  from pipeline_slugs_unique [where el = "Leaf HarvestLQTY [] []",
         THEN conjunct2, THEN conjunct2, THEN conjunct1]
  have hb: "camel_to_snake ''HarvestLQTY'' = ''harvest_lqty''"
    by simp
  from pipeline_slugs_unique [where el = "Leaf HarvestLQTY [] []" and seen = "{||}",
         THEN conjunct2, THEN conjunct1] hb
  have h: "init_slug {||} (Leaf HarvestLQTY [] [])
       = Inr (Leaf HarvestLQTY ''harvest_lqty'' [], {|''harvest_lqty''|})"
    by auto
  from pipeline_slugs_unique [where el = "Leaf LQTYAccrued [] []",
         THEN conjunct2, THEN conjunct2, THEN conjunct1]
  have lb: "camel_to_snake ''LQTYAccrued'' = ''lqty_accrued''"
    by simp
  from pipeline_slugs_unique [where el = "Leaf LQTYAccrued [] []" and seen = "{||}",
         THEN conjunct2, THEN conjunct1] lb
  have l: "init_slug {||} (Leaf LQTYAccrued [] [])
       = Inr (Leaf LQTYAccrued ''lqty_accrued'' [], {|''lqty_accrued''|})"
    by auto
  from p d i h l show ?thesis by blast
qed

section \<open>Execution: properties\<close>

lemma accept_given_append:
  "accept_given v lg sl (pre @ post) st up w =
     (case accept_given v lg sl pre st up w of
        (Inl e, w1) \<Rightarrow> (Inl e, w1)
      | (Inr st1, w1) \<Rightarrow> accept_given v lg sl post st1 up w1)"
  by (induction pre arbitrary: st w) (auto split: sum.splits prod.splits)

lemma accept_steps_children_evaluations:
  "accept_steps v lg ss st up ace w =
     (case children_evaluations v lg ss st up w of
        (Inl e, w1) \<Rightarrow> (Inl e, w1)
      | (Inr evs, w1) \<Rightarrow>
          (Inr (state (last (\<lparr>state = st, chain_effect = ace\<rparr> # evs)),
                ace \<or> (\<exists>ev\<in>set evs. chain_effect ev)), w1))"
proof (induction ss arbitrary: st ace w)
  case Nil
  then show ?case by simp
next
  case (Cons s ss)
  show ?case
    by (auto simp: Cons.IH split: sum.splits prod.splits)
qed

lemma repeat_loop_index:
  "repeat_loop v lg sl gs ec ss mx c st up ace w = (Inr (st', ace', c', how), w')
     \<Longrightarrow> c \<le> c' \<and> (c' < mx \<or> (\<not> c < mx \<and> c' = c)) \<and> (how = Range_exhausted \<longrightarrow> mx - 1 \<le> c')"
proof (induction "nat (mx - c)" arbitrary: c st ace w)
  case 0
  then show ?case
    by (simp add: repeat_loop.simps [where c = c])
next
  case (Suc n)
  from Suc.hyps(2) have lt: "c < mx" by simp
  from Suc.hyps(2) have n: "n = nat (mx - (c + 1))" by simp
  note IH = Suc.hyps(1) [OF n]
  from Suc.prems lt show ?case
    by (auto simp: repeat_loop.simps [where c = c] split: sum.splits prod.splits if_splits
          dest!: IH)
qed

lemma accept_steps_append:
  "accept_steps v lg (pre @ post) st up ace w =
     (case accept_steps v lg pre st up ace w of
        (Inl e, w1) \<Rightarrow> (Inl e, w1)
      | (Inr (st1, ace1), w1) \<Rightarrow> accept_steps v lg post st1 up ace1 w1)"
  by (induction pre arbitrary: st ace w) (auto split: sum.splits prod.splits)

lemma condition_call_error:
  assumes "condition_call v lg sl gs ec st up w pl = Some (s, st', params, w')"
    and "accept v lg s st' params w' = (Inl e, w'')"
  shows "eval_condition v lg sl gs ec st up w = (Inl e, w'')"
proof (cases pl)
  case (Given i)
  with assms(1) have i: "i < length gs"
    and g: "accept_given v lg sl (take i gs) st up w = (Inr st', w')"
    and p: "dict_get up (slug (gs ! i)) (VDict []) = Inr params" and s: "s = gs ! i"
    by (auto simp: condition_call_def split: if_splits sum.splits prod.splits)
  from i have "gs = take i gs @ gs ! i # drop (Suc i) gs"
    by (rule id_take_nth_drop)
  then have "accept_given v lg sl gs st up w
      = accept_given v lg sl (take i gs @ gs ! i # drop (Suc i) gs) st up w" by simp
  also have "\<dots> = (Inl e, w'')"
    using g p s assms(2) by (simp add: accept_given_append del: accept.simps)
  finally show ?thesis by simp
next
  case Entry_condition
  with assms show ?thesis
    by (auto simp: condition_call_def simp del: accept.simps split: option.splits sum.splits prod.splits)
next
  case (Steps j)
  with assms(1) show ?thesis by (simp add: condition_call_def)
qed

lemma steps_call_error:
  assumes "steps_call v lg ss st up ace w j = Some (s, st', params, w')"
    and "accept v lg s st' params w' = (Inl e, w'')"
  shows "accept_steps v lg ss st up ace w = (Inl e, w'')"
proof -
  from assms(1) obtain ace' where j: "j < length ss"
    and g: "accept_steps v lg (take j ss) st up ace w = (Inr (st', ace'), w')"
    and p: "dict_get up (slug (ss ! j)) (VDict []) = Inr params" and s: "s = ss ! j"
    by (auto simp: steps_call_def split: if_splits sum.splits prod.splits)
  from j have "ss = take j ss @ ss ! j # drop (Suc j) ss"
    by (rule id_take_nth_drop)
  then have "accept_steps v lg ss st up ace w
      = accept_steps v lg (take j ss @ ss ! j # drop (Suc j) ss) st up ace w" by simp
  also have "\<dots> = (Inl e, w'')"
    using g p s assms(2) by (simp add: accept_steps_append del: accept.simps)
  finally show ?thesis .
qed

lemma pass_call_error:
  assumes "pass_call v lg sl gs ec ss st up ace w pl = Some (s, st', params, w')"
    and "accept v lg s st' params w' = (Inl e, w'')"
  shows "eval_condition v lg sl gs ec st up w = (Inl e, w'')
       \<or> (\<exists>st1 condition w1. eval_condition v lg sl gs ec st up w = (Inr (st1, condition), w1)
            \<and> truthy condition \<and> accept_steps v lg ss st1 up ace w1 = (Inl e, w''))"
proof (cases pl)
  case (Steps j)
  with assms(1) obtain st1 condition w1 where
    c: "eval_condition v lg sl gs ec st up w = (Inr (st1, condition), w1)" "truthy condition"
    and sc: "steps_call v lg ss st1 up ace w1 j = Some (s, st', params, w')"
    by (auto simp: pass_call_def simp del: eval_condition.simps split: if_splits sum.splits prod.splits)
  from steps_call_error [OF sc assms(2)] c show ?thesis by blast
next
  case (Given i)
  with assms(1) have "condition_call v lg sl gs ec st up w pl = Some (s, st', params, w')"
    by (simp add: pass_call_def)
  from condition_call_error [OF this assms(2)] show ?thesis by blast
next
  case Entry_condition
  with assms(1) have "condition_call v lg sl gs ec st up w pl = Some (s, st', params, w')"
    by (simp add: pass_call_def)
  from condition_call_error [OF this assms(2)] show ?thesis by blast
qed

lemma iteration_start_loop:
  "iteration_start v lg sl gs ec ss mx up c st1 w1 = Some (st, ace, w)
     \<Longrightarrow> int c < mx
         \<and> repeat_loop v lg sl gs ec ss mx 0 st1 up False w1
             = repeat_loop v lg sl gs ec ss mx (int c) st up ace w"
proof (induction c arbitrary: st ace w)
  case 0
  then show ?case by (auto split: if_splits)
next
  case (Suc c)
  from Suc.prems obtain st0 ace0 w0 st' condition w' where
    s: "iteration_start v lg sl gs ec ss mx up c st1 w1 = Some (st0, ace0, w0)"
    and e: "eval_condition v lg sl gs ec st0 up w0 = (Inr (st', condition), w')" "truthy condition"
    and a: "accept_steps v lg ss st' up ace0 w' = (Inr (st, ace), w)" "ace" "int c + 1 < mx"
    by (auto simp del: eval_condition.simps split: option.splits if_splits sum.splits prod.splits)
  from Suc.IH [OF s] have lt: "int c < mx"
    and l: "repeat_loop v lg sl gs ec ss mx 0 st1 up False w1
             = repeat_loop v lg sl gs ec ss mx (int c) st0 up ace0 w0" by simp_all
  have "repeat_loop v lg sl gs ec ss mx (int c) st0 up ace0 w0
          = repeat_loop v lg sl gs ec ss mx (int c + 1) st up ace w"
    using lt e a by (simp add: repeat_loop.simps [where c = "int c"] del: eval_condition.simps)
  with l a(3) show ?case by (simp add: add.commute)
qed

lemma subcall_error:
  assumes "subcall v lg (s0, st0, up0, w0) p = Some (s, st, up, w)"
    and "accept v lg s st up w = (Inl e, w')"
  shows "accept v lg s0 st0 up0 w0 = (Inl e, w')"
proof (cases s0)
  case (Leaf k sl flds)
  with assms(1) show ?thesis by simp
next
  case (Transform tk sl f as)
  with assms(1) show ?thesis by simp
next
  case (Group sl d gs ec ss h)
  obtain c pl where p: "p = (c, pl)" by (cases p)
  from assms(1) Group p obtain st1 w1 where
    en: "enter_group v (Group sl d gs ec ss h) st0 w0 = (Inr st1, w1)"
    and pc: "pass_call v lg sl gs ec ss st1 up0 False w1 pl = Some (s, st, up, w)"
    by (auto split: if_splits sum.splits prod.splits)
  from pass_call_error [OF pc assms(2)] en Group show ?thesis
    by (auto simp del: eval_condition.simps)
next
  case (Repeat sl d gs ec ss h m)
  obtain c pl where p: "p = (c, pl)" by (cases p)
  from assms(1) Repeat p obtain self' st1 w1 mx st2 ace w2 where
    pr: "prepare_args (Repeat sl d gs ec ss h m) st0 up0 = Inr self'"
    and en: "enter_repeat v self' st0 w0 = (Inr st1, w1)"
    and rs: "range_stop self' = Inr mx"
    and it: "iteration_start v lg sl gs ec ss mx up0 c st1 w1 = Some (st2, ace, w2)"
    and pc: "pass_call v lg sl gs ec ss st2 up0 ace w2 pl = Some (s, st, up, w)"
    by (auto simp del: prepare_args.simps split: option.splits sum.splits prod.splits)
  from iteration_start_loop [OF it] have lt: "int c < mx"
    and l: "repeat_loop v lg sl gs ec ss mx 0 st1 up0 False w1
             = repeat_loop v lg sl gs ec ss mx (int c) st2 up0 ace w2" by simp_all
  from pass_call_error [OF pc assms(2)] lt
  have "repeat_loop v lg sl gs ec ss mx (int c) st2 up0 ace w2 = (Inl e, w')"
    by (auto simp: repeat_loop.simps [where c = "int c"] simp del: eval_condition.simps)
  with l pr en rs Repeat show ?thesis
    by (simp del: prepare_args.simps)
qed

lemma call_at_error:
  "call_at v lg x path = Some (s, st, up, w) \<Longrightarrow> accept v lg s st up w = (Inl e, w')
     \<Longrightarrow> (case x of (s0, st0, up0, w0) \<Rightarrow> accept v lg s0 st0 up0 w0) = (Inl e, w')"
proof (induction path arbitrary: x)
  case Nil
  then show ?case by (auto simp del: accept.simps)
next
  case (Cons p path)
  from Cons.prems(1) obtain y where y: "subcall v lg x p = Some y"
    and c: "call_at v lg y path = Some (s, st, up, w)"
    by (auto split: option.splits)
  obtain s1 st1 up1 w1 where y1: "y = (s1, st1, up1, w1)" by (cases y)
  obtain s0 st0 up0 w0 where x0: "x = (s0, st0, up0, w0)" by (cases x)
  from Cons.IH [OF c Cons.prems(2)] y1 have "accept v lg s1 st1 up1 w1 = (Inl e, w')" by simp
  from subcall_error [OF y [unfolded x0 y1] this] x0 show ?case by simp
qed

lemma last_state: "state (last (\<lparr>state = st, chain_effect = a\<rparr> # evs)) = state (last (\<lparr>state = st, chain_effect = b\<rparr> # evs))"
  by (cases evs) simp_all

lemma repeat_passes_le:
  "repeat_passes v lg sl gs ec ss n st up ace w = (Inr (st', ace', k), w') \<Longrightarrow> k \<le> n"
proof (induction n arbitrary: st ace w k)
  case 0
  then show ?case by simp
next
  case (Suc n)
  from Suc.prems show ?case
    by (auto simp: Let_def simp del: eval_condition.simps split: sum.splits prod.splits if_splits dest!: Suc.IH)
qed

lemma repeat_loop_passes:
  "repeat_passes v lg sl gs ec ss (nat (mx - c)) st up ace w =
     (case repeat_loop v lg sl gs ec ss mx c st up ace w of
        (Inl e, w') \<Rightarrow> (Inl e, w')
      | (Inr (st', ace', c', how), w') \<Rightarrow>
          (Inr (st', ace',
                if c < mx then nat (c' - c) + (if how = Condition_false then 0 else 1) else 0), w'))"
proof (induction "nat (mx - c)" arbitrary: c st ace w)
  case 0
  then show ?case
    by (simp add: repeat_loop.simps [where c = c])
next
  case (Suc n)
  from Suc.hyps(2) have lt: "c < mx" by simp
  from Suc.hyps(2) have n: "n = nat (mx - (c + 1))" by simp
  note IH = Suc.hyps(1) [OF n]
  have S: "nat (mx - c) = Suc n" using Suc.hyps(2) by simp
  show ?case
  proof (cases "eval_condition v lg sl gs ec st up w")
    case (Pair r1 w1)
    show ?thesis
    proof (cases r1)
      case (Inl e)
      with Pair lt show ?thesis
        by (simp add: S repeat_loop.simps [where c = c] del: eval_condition.simps)
    next
      case (Inr sc)
      obtain st1 cond where sc: "sc = (st1, cond)" by (cases sc)
      show ?thesis
      proof (cases "truthy cond")
        case False
        with Pair Inr sc lt show ?thesis
          by (simp add: S repeat_loop.simps [where c = c] del: eval_condition.simps)
      next
        case True
        show ?thesis
        proof (cases "children_evaluations v lg ss st1 up w1")
          case (Pair r2 w2)
          note P2 = Pair
          show ?thesis
          proof (cases r2)
            case (Inl e)
            with P2 \<open>eval_condition v lg sl gs ec st up w = (r1, w1)\<close> Inr sc lt True show ?thesis
              by (simp add: S repeat_loop.simps [where c = c] accept_steps_children_evaluations
                    del: eval_condition.simps)
          next
            case (Inr evs)
            let ?st2 = "state (last (\<lparr>state = st1, chain_effect = False\<rparr> # evs))"
            let ?ace2 = "ace \<or> (\<exists>ev\<in>set evs. chain_effect ev)"
            have steps: "accept_steps v lg ss st1 up ace w1 = (Inr (?st2, ?ace2), w2)"
              using P2 Inr by (simp add: accept_steps_children_evaluations last_state [of st1 ace evs False])
            show ?thesis
            proof (cases "?ace2")
              case False
              with P2 \<open>eval_condition v lg sl gs ec st up w = (r1, w1)\<close> \<open>r1 = Inr sc\<close> sc lt True Inr steps
              show ?thesis
                by (simp add: S repeat_loop.simps [where c = c] Let_def del: eval_condition.simps)
            next
              case ace2: True
              show ?thesis
              proof (cases "c + 1 < mx")
                case False
                with lt have "n = 0" using n by simp
                with False ace2 P2 \<open>eval_condition v lg sl gs ec st up w = (r1, w1)\<close> \<open>r1 = Inr sc\<close> sc lt True Inr steps
                show ?thesis
                  by (simp add: S repeat_loop.simps [where c = c] Let_def del: eval_condition.simps)
              next
                case c1: True
                have L: "repeat_loop v lg sl gs ec ss mx c st up ace w
                       = repeat_loop v lg sl gs ec ss mx (c + 1) ?st2 up ?ace2 w2"
                  using c1 ace2 \<open>eval_condition v lg sl gs ec st up w = (r1, w1)\<close> \<open>r1 = Inr sc\<close> sc lt True steps
                  by (simp add: repeat_loop.simps [where c = c] del: eval_condition.simps)
                have R: "repeat_passes v lg sl gs ec ss (Suc n) st up ace w
                       = (case repeat_passes v lg sl gs ec ss n ?st2 up ?ace2 w2 of
                            (Inl e, w3) \<Rightarrow> (Inl e, w3)
                          | (Inr (st3, ace3, k), w3) \<Rightarrow> (Inr (st3, ace3, Suc k), w3))"
                  using ace2 P2 Inr \<open>eval_condition v lg sl gs ec st up w = (r1, w1)\<close> \<open>r1 = Inr sc\<close> sc True
                  by (simp add: Let_def del: eval_condition.simps)
                have IH': "repeat_passes v lg sl gs ec ss n ?st2 up ?ace2 w2 =
                    (case repeat_loop v lg sl gs ec ss mx (c + 1) ?st2 up ?ace2 w2 of
                       (Inl e, w') \<Rightarrow> (Inl e, w')
                     | (Inr (st', ace', c', how), w') \<Rightarrow>
                         (Inr (st', ace',
                               if c + 1 < mx
                               then nat (c' - (c + 1)) + (if how = Condition_false then 0 else 1)
                               else 0), w'))"
                  unfolding n by (rule IH)
                show ?thesis
                proof (cases "repeat_loop v lg sl gs ec ss mx (c + 1) ?st2 up ?ace2 w2")
                  case (Pair r3 w3)
                  show ?thesis
                  proof (cases r3)
                    case (Inl e)
                    show ?thesis
                      unfolding S R L IH' Pair Inl by simp
                  next
                    case (Inr res)
                    obtain st3 ace3 c3 how where res: "res = (st3, ace3, c3, how)" by (cases res)
                    from repeat_loop_index [of v lg sl gs ec ss mx "c + 1" ?st2 up ?ace2 w2 st3 ace3 c3 how w3]
                      Pair Inr res
                    have "c + 1 \<le> c3" by simp
                    with c1 lt show ?thesis
                      unfolding S R L IH' Pair Inr res by (simp add: nat_add_distrib)
                  qed
                qed
              qed
            qed
          qed
        qed
      qed
    qed
  qed
qed

text \<open>
  Claim C1 fails on the code. The \<open>Repeat\<close> has \<open>max = 3\<close> and one child, which reports
  a chain effect on its first visit only (\<open>N = 1\<close>). The second iteration has no chain
  effect, and yet the loop runs a third one and reaches the cap: the test after the
  children reads \<open>any_chain_effect\<close>, which the first iteration has set for good.
\<close>

theorem repeat_continues_after_effectless_iteration:
  "accept (example_executor (effect_first 1)) example_warn harvest_loop Map.empty (VDict []) []
     = (Inr \<lparr>state = Map.empty, chain_effect = True\<rparr>,
        [''harvest_comp'', ''harvest_comp'', ''harvest_comp'',
         ''WARNING: maximum iterations reached for Repeat Group''])"
  by (simp add: harvest_loop_def example_executor_def effect_first_def example_warn_def
        Visitor_hook_def prepare_field_def Repeat_max_def py_int_def repeat_loop.simps)

text \<open>
  Claim C2. A group has been entered. If a guard, reached after the guards before it
  have passed, reports a chain effect, \<open>accept\<close> of the group raises
  \<open>InvalidChainEffectError\<close> with the slug of the guard and \<open>"<slug of the group>.given"\<close>;
  if the guards pass and the entry condition reports a chain effect, it raises
  \<open>InvalidChainEffectError\<close> with the entry condition (the step itself, where a guard
  gives its slug) and \<open>"<slug of the group>.entry_condition"\<close>. In both cases the
  executor is left as the offending step left it, so that no child of the group has
  been visited. The loop of a \<open>Repeat\<close>, which evaluates its guards and entry condition
  in the same way, raises the same errors at whichever iteration it is in, and an error
  of the loop in an iteration that it reaches is the error of \<open>accept\<close> of the
  \<open>Repeat\<close>. An error of the group is also the error of the loop over the steps of an
  enclosing group; of \<open>accept\<close> of every step that the group stands below, at any
  depth, among the guards, as entry condition or among the steps of groups and
  \<open>Repeat\<close>s, with the executor as the offending step left it; and of the call of the
  pipeline, be the group its root or below its root.
\<close>

theorem group_guard_chain_effect:
  assumes "enter_group v (Group sl d gs ec ss h) st w = (Inr st1, w1)"
  shows "(gs = pre @ g # post
            \<and> accept_given v lg sl pre st1 up w1 = (Inr st2, w2)
            \<and> dict_get up (slug g) (VDict []) = Inr params
            \<and> accept v lg g st2 params w2 = (Inr ev, w3) \<and> chain_effect ev
            \<longrightarrow> accept v lg (Group sl d gs ec ss h) st up w
                  = (Inl (InvalidChainEffectError (Slug (slug g)) (sl @ ''.given'')), w3))
       \<and> (ec = Some e
            \<and> accept_given v lg sl gs st1 up w1 = (Inr st2', w2')
            \<and> dict_get up (slug e) (VDict []) = Inr params'
            \<and> accept v lg e st2' params' w2' = (Inr ev', w3') \<and> chain_effect ev'
            \<longrightarrow> accept v lg (Group sl d gs ec ss h) st up w
                  = (Inl (InvalidChainEffectError (StepObject e) (sl @ ''.entry_condition'')), w3'))
       \<and> (c < self_max
            \<and> ((gs = pre @ g # post
                 \<and> accept_given v lg sl pre st1 up w1 = (Inr st2, w2)
                 \<and> dict_get up (slug g) (VDict []) = Inr params
                 \<and> accept v lg g st2 params w2 = (Inr ev, w3) \<and> chain_effect ev
                 \<and> err = InvalidChainEffectError (Slug (slug g)) (sl @ ''.given''))
               \<or> (ec = Some e
                 \<and> accept_given v lg sl gs st1 up w1 = (Inr st2, w2)
                 \<and> dict_get up (slug e) (VDict []) = Inr params
                 \<and> accept v lg e st2 params w2 = (Inr ev, w3) \<and> chain_effect ev
                 \<and> err = InvalidChainEffectError (StepObject e) (sl @ ''.entry_condition'')))
            \<longrightarrow> repeat_loop v lg sl gs ec ss self_max c st1 up ace1 w1 = (Inl err, w3))
       \<and> (accept v lg (Group sl d gs ec ss h) st up w = (Inl err, w4)
            \<and> accept_steps v lg before st0 up0 ace0 w0 = (Inr (st, ace), w)
            \<and> dict_get up0 sl (VDict []) = Inr up
            \<longrightarrow> accept_steps v lg (before @ Group sl d gs ec ss h # after) st0 up0 ace0 w0
                  = (Inl err, w4))
       \<and> (accept v lg (Group sl d gs ec ss h) st up w = (Inl err, w4)
            \<and> st = Map.empty \<and> root p = Group sl d gs ec ss h
            \<and> dict_get (if \<not> truthy user_params then VDict [] else user_params) sl VNone = Inr raw
            \<and> up = (if truthy raw then raw else VDict [])
            \<longrightarrow> pipeline_call v lg p user_params w = (Inl err, w4))
       \<and> (accept v lg (Group sl d gs ec ss h) st up w = (Inl err, w4)
            \<and> call_at v lg (outer, st_outer, up_outer, w_outer) path
                = Some (Group sl d gs ec ss h, st, up, w)
            \<longrightarrow> accept v lg outer st_outer up_outer w_outer = (Inl err, w4))
       \<and> (accept v lg (Group sl d gs ec ss h) st up w = (Inl err, w4)
            \<and> dict_get (if \<not> truthy user_params then VDict [] else user_params)
                 (slug (root q)) VNone = Inr raw_q
            \<and> call_at v lg (root q, Map.empty, if truthy raw_q then raw_q else VDict [], w_q) path
                = Some (Group sl d gs ec ss h, st, up, w)
            \<longrightarrow> pipeline_call v lg q user_params w_q = (Inl err, w4))
       \<and> (prepare_args (Repeat sl d gs ec ss h m) st_r up = Inr self'
            \<and> enter_repeat v self' st_r w_r = (Inr st_e, w_e)
            \<and> range_stop self' = Inr self_max
            \<and> iteration_start v lg sl gs ec ss self_max up n st_e w_e = Some (st1, ace1, w1)
            \<and> repeat_loop v lg sl gs ec ss self_max (int n) st1 up ace1 w1 = (Inl err, w3)
            \<longrightarrow> accept v lg (Repeat sl d gs ec ss h m) st_r up w_r = (Inl err, w3))"
proof (intro conjI impI)
  assume "gs = pre @ g # post
            \<and> accept_given v lg sl pre st1 up w1 = (Inr st2, w2)
            \<and> dict_get up (slug g) (VDict []) = Inr params
            \<and> accept v lg g st2 params w2 = (Inr ev, w3) \<and> chain_effect ev"
  with assms show "accept v lg (Group sl d gs ec ss h) st up w
                  = (Inl (InvalidChainEffectError (Slug (slug g)) (sl @ ''.given'')), w3)"
    by (auto simp: accept_given_append)
next
  assume "ec = Some e
            \<and> accept_given v lg sl gs st1 up w1 = (Inr st2', w2')
            \<and> dict_get up (slug e) (VDict []) = Inr params'
            \<and> accept v lg e st2' params' w2' = (Inr ev', w3') \<and> chain_effect ev'"
  with assms show "accept v lg (Group sl d gs ec ss h) st up w
                  = (Inl (InvalidChainEffectError (StepObject e) (sl @ ''.entry_condition'')), w3')"
    by auto
next
  assume "c < self_max
            \<and> ((gs = pre @ g # post
                 \<and> accept_given v lg sl pre st1 up w1 = (Inr st2, w2)
                 \<and> dict_get up (slug g) (VDict []) = Inr params
                 \<and> accept v lg g st2 params w2 = (Inr ev, w3) \<and> chain_effect ev
                 \<and> err = InvalidChainEffectError (Slug (slug g)) (sl @ ''.given''))
               \<or> (ec = Some e
                 \<and> accept_given v lg sl gs st1 up w1 = (Inr st2, w2)
                 \<and> dict_get up (slug e) (VDict []) = Inr params
                 \<and> accept v lg e st2 params w2 = (Inr ev, w3) \<and> chain_effect ev
                 \<and> err = InvalidChainEffectError (StepObject e) (sl @ ''.entry_condition'')))"
  then have "c < self_max" and "eval_condition v lg sl gs ec st1 up w1 = (Inl err, w3)"
    by (auto simp: accept_given_append)
  then show "repeat_loop v lg sl gs ec ss self_max c st1 up ace1 w1 = (Inl err, w3)"
    by (simp add: repeat_loop.simps [where c = c] del: eval_condition.simps)
next
  assume "accept v lg (Group sl d gs ec ss h) st up w = (Inl err, w4)
            \<and> accept_steps v lg before st0 up0 ace0 w0 = (Inr (st, ace), w)
            \<and> dict_get up0 sl (VDict []) = Inr up"
  then show "accept_steps v lg (before @ Group sl d gs ec ss h # after) st0 up0 ace0 w0
                  = (Inl err, w4)"
    by (simp add: accept_steps_append del: accept.simps)
next
  assume "accept v lg (Group sl d gs ec ss h) st up w = (Inl err, w4)
            \<and> st = Map.empty \<and> root p = Group sl d gs ec ss h
            \<and> dict_get (if \<not> truthy user_params then VDict [] else user_params) sl VNone = Inr raw
            \<and> up = (if truthy raw then raw else VDict [])"
  then show "pipeline_call v lg p user_params w = (Inl err, w4)"
    by (auto simp: pipeline_call_def simp del: accept.simps)
next
  assume a: "accept v lg (Group sl d gs ec ss h) st up w = (Inl err, w4)
            \<and> call_at v lg (outer, st_outer, up_outer, w_outer) path
                = Some (Group sl d gs ec ss h, st, up, w)"
  then have "call_at v lg (outer, st_outer, up_outer, w_outer) path
                = Some (Group sl d gs ec ss h, st, up, w)"
    and "accept v lg (Group sl d gs ec ss h) st up w = (Inl err, w4)" by simp_all
  from call_at_error [OF this]
  show "accept v lg outer st_outer up_outer w_outer = (Inl err, w4)" by simp
next
  assume a: "accept v lg (Group sl d gs ec ss h) st up w = (Inl err, w4)
            \<and> dict_get (if \<not> truthy user_params then VDict [] else user_params)
                 (slug (root q)) VNone = Inr raw_q
            \<and> call_at v lg (root q, Map.empty, if truthy raw_q then raw_q else VDict [], w_q) path
                = Some (Group sl d gs ec ss h, st, up, w)"
  then have "call_at v lg (root q, Map.empty, if truthy raw_q then raw_q else VDict [], w_q) path
                = Some (Group sl d gs ec ss h, st, up, w)"
    and "accept v lg (Group sl d gs ec ss h) st up w = (Inl err, w4)" by simp_all
  from call_at_error [OF this]
  have "accept v lg (root q) Map.empty (if truthy raw_q then raw_q else VDict []) w_q = (Inl err, w4)"
    by simp
  with a show "pipeline_call v lg q user_params w_q = (Inl err, w4)"
    by (simp add: pipeline_call_def del: accept.simps)
next
  assume a: "prepare_args (Repeat sl d gs ec ss h m) st_r up = Inr self'
            \<and> enter_repeat v self' st_r w_r = (Inr st_e, w_e)
            \<and> range_stop self' = Inr self_max
            \<and> iteration_start v lg sl gs ec ss self_max up n st_e w_e = Some (st1, ace1, w1)
            \<and> repeat_loop v lg sl gs ec ss self_max (int n) st1 up ace1 w1 = (Inl err, w3)"
  then have "iteration_start v lg sl gs ec ss self_max up n st_e w_e = Some (st1, ace1, w1)"
    by simp
  from iteration_start_loop [OF this] a
  have "repeat_loop v lg sl gs ec ss self_max 0 st_e up False w_e = (Inl err, w3)" by simp
  with a show "accept v lg (Repeat sl d gs ec ss h m) st_r up w_r = (Inl err, w3)"
    by (simp del: prepare_args.simps)
qed

text \<open>
  With an executor for which \<open>comp_accrued\<close> reports a chain effect, the group guarded
  by a \<open>CompAccrued\<close>: alone, among the steps of an enclosing group, and as the root of a
  pipeline; and a \<open>Repeat\<close> with the same guard. With an executor for which the \<open>Expr\<close>
  \<open>check\<close> reports one, the group that has \<open>check\<close> as entry condition. The log holds
  the offending step last: the child \<open>harvest_comp\<close> is not visited. With the guarded
  group in a \<open>Repeat\<close> among the steps of the root, and \<open>comp_accrued\<close> reporting a
  chain effect on its second visit: the first iteration of the \<open>Repeat\<close> passes, the
  second raises, and \<open>accept\<close> of the root and the call of the pipeline raise the same
  error.
\<close>

theorem group_guard_chain_effect_witness:
  "accept (example_executor (slug_effect ''comp_accrued'')) example_warn guarded_group
       Map.empty (VDict []) []
     = (Inl (InvalidChainEffectError (Slug ''comp_accrued'') ''harvesting.given''),
        [''comp_accrued''])
   \<and> accept (example_executor (slug_effect ''check'')) example_warn gated_group
       [''x'' \<mapsto> VInt 5] (VDict []) []
     = (Inl (InvalidChainEffectError (StepObject (Transform Expr ''check'' x_positive []))
               ''harvesting.entry_condition''), [''check''])
   \<and> accept_steps (example_executor (slug_effect ''comp_accrued'')) example_warn
       [Leaf LQTYAccrued ''lqty_accrued'' [], guarded_group, Leaf HarvestLQTY ''harvest_lqty'' []]
       Map.empty (VDict []) False []
     = (Inl (InvalidChainEffectError (Slug ''comp_accrued'') ''harvesting.given''),
        [''lqty_accrued'', ''comp_accrued''])
   \<and> pipeline_call (example_executor (slug_effect ''comp_accrued'')) example_warn
       \<lparr>root = guarded_group\<rparr> VNone []
     = (Inl (InvalidChainEffectError (Slug ''comp_accrued'') ''harvesting.given''),
        [''comp_accrued''])
   \<and> repeat_loop (example_executor (slug_effect ''comp_accrued'')) example_warn ''harvesting''
       [Leaf CompAccrued ''comp_accrued'' []] None [Leaf HarvestComp ''harvest_comp'' []]
       50 0 Map.empty (VDict []) False []
     = (Inl (InvalidChainEffectError (Slug ''comp_accrued'') ''harvesting.given''),
        [''comp_accrued''])
   \<and> accept (example_executor (slug_effect ''comp_accrued'')) example_warn
       (Repeat ''harvesting'' None [Leaf CompAccrued ''comp_accrued'' []] None
          [Leaf HarvestComp ''harvest_comp'' []] False (Val (VInt 50)))
       Map.empty (VDict []) []
     = (Inl (InvalidChainEffectError (Slug ''comp_accrued'') ''harvesting.given''),
        [''comp_accrued''])
   \<and> call_at (example_executor late_effect) example_warn
       (harvesting_pipeline, Map.empty, VDict [], []) [(0, Steps 1), (1, Steps 0)]
     = Some (guarded_group, Map.empty, VDict [],
             [''lqty_accrued'', ''comp_accrued'', ''harvest_comp''])
   \<and> accept (example_executor late_effect) example_warn harvesting_pipeline
       Map.empty (VDict []) []
     = (Inl (InvalidChainEffectError (Slug ''comp_accrued'') ''harvesting.given''),
        [''lqty_accrued'', ''comp_accrued'', ''harvest_comp'', ''comp_accrued''])
   \<and> pipeline_call (example_executor late_effect) example_warn
       \<lparr>root = harvesting_pipeline\<rparr> VNone []
     = (Inl (InvalidChainEffectError (Slug ''comp_accrued'') ''harvesting.given''),
        [''lqty_accrued'', ''comp_accrued'', ''harvest_comp'', ''comp_accrued''])"
proof -
  let ?v = "example_executor (slug_effect ''comp_accrued'')"
  let ?u = "example_executor (slug_effect ''check'')"
  let ?l = "example_executor late_effect"
  let ?b = "Leaf CompAccrued ''comp_accrued'' []"
  let ?e = "Transform Expr ''check'' x_positive []"
  let ?ss = "[Leaf HarvestComp ''harvest_comp'' []]"
  let ?ev = "\<lparr>state = Map.empty, chain_effect = True\<rparr>"
  let ?err = "InvalidChainEffectError (Slug ''comp_accrued'') ''harvesting.given''"
  let ?path = "[(0::nat, Steps 1), (1, Steps 0)]"
  let ?w = "[''lqty_accrued'', ''comp_accrued'', ''harvest_comp'']"
  let ?w' = "[''lqty_accrued'', ''comp_accrued'', ''harvest_comp'', ''comp_accrued'']"
  have b: "accept ?v example_warn ?b Map.empty (VDict []) w = (Inr ?ev, w @ [''comp_accrued''])"
    for w
    by (simp add: example_executor_def slug_effect_def)
  have e: "accept ?u example_warn ?e [''x'' \<mapsto> VInt 5] (VDict []) []
             = (Inr \<lparr>state = [''x'' \<mapsto> VInt 5, ''_condition_'' \<mapsto> VBool True],
                     chain_effect = True\<rparr>, [''check''])"
    by (simp add: example_executor_def slug_effect_def x_positive_def)
  have enter: "enter_group (example_executor f) s st w = (Inr st, w)"
    for f s st and w :: "string list"
    by (simp add: example_executor_def Visitor_hook_def)
  note t1 = group_guard_chain_effect [where v = ?v and lg = example_warn
      and sl = "''harvesting''" and d = None and gs = "[?b]" and ec = None and ss = ?ss
      and h = False and st = Map.empty and w = "[]" and ?st1.0 = Map.empty and ?w1.0 = "[]"
      and up = "VDict []", OF enter]
  from t1 [where pre = "[]" and g = ?b and post = "[]" and ?st2.0 = Map.empty and ?w2.0 = "[]"
      and params = "VDict []" and ev = ?ev and ?w3.0 = "[''comp_accrued'']"] b [of "[]"]
  have g: "accept ?v example_warn guarded_group Map.empty (VDict []) []
             = (Inl ?err, [''comp_accrued''])"
    by (simp add: guarded_group_def del: accept.simps)
  from group_guard_chain_effect [where v = ?u and lg = example_warn and sl = "''harvesting''"
      and d = None and gs = "[]" and ec = "Some ?e" and ss = ?ss and h = False
      and st = "[''x'' \<mapsto> VInt 5]" and w = "[]" and ?st1.0 = "[''x'' \<mapsto> VInt 5]"
      and ?w1.0 = "[]" and up = "VDict []" and e = ?e and st2' = "[''x'' \<mapsto> VInt 5]"
      and w2' = "[]" and params' = "VDict []"
      and ev' = "\<lparr>state = [''x'' \<mapsto> VInt 5, ''_condition_'' \<mapsto> VBool True],
                   chain_effect = True\<rparr>"
      and w3' = "[''check'']", OF enter] e
  have c: "accept ?u example_warn gated_group [''x'' \<mapsto> VInt 5] (VDict []) []
             = (Inl (InvalidChainEffectError (StepObject ?e) ''harvesting.entry_condition''),
                [''check''])"
    by (simp add: gated_group_def del: accept.simps)
  from group_guard_chain_effect [where v = ?v and lg = example_warn and sl = "''harvesting''"
      and d = None and gs = "[?b]" and ec = None and ss = ?ss and h = False
      and st = Map.empty and w = "[''lqty_accrued'']" and ?st1.0 = Map.empty
      and ?w1.0 = "[''lqty_accrued'']"
      and up = "VDict []" and pre = "[]" and g = ?b and post = "[]" and ?st2.0 = Map.empty
      and ?w2.0 = "[''lqty_accrued'']" and params = "VDict []" and ev = ?ev
      and ?w3.0 = "[''lqty_accrued'', ''comp_accrued'']" and err = ?err
      and ?w4.0 = "[''lqty_accrued'', ''comp_accrued'']"
      and before = "[Leaf LQTYAccrued ''lqty_accrued'' []]" and ?st0.0 = Map.empty
      and ?up0.0 = "VDict []" and ace0 = False and ?w0.0 = "[]" and ace = False
      and after = "[Leaf HarvestLQTY ''harvest_lqty'' []]", OF enter]
  have s: "accept_steps ?v example_warn
       [Leaf LQTYAccrued ''lqty_accrued'' [], guarded_group, Leaf HarvestLQTY ''harvest_lqty'' []]
       Map.empty (VDict []) False [] = (Inl ?err, [''lqty_accrued'', ''comp_accrued''])"
    by (simp add: guarded_group_def example_executor_def Visitor_hook_def slug_effect_def)
  from t1 [where err = ?err and ?w4.0 = "[''comp_accrued'']" and p = "\<lparr>root = guarded_group\<rparr>"
      and user_params = VNone and raw = VNone] g
  have p: "pipeline_call ?v example_warn \<lparr>root = guarded_group\<rparr> VNone []
             = (Inl ?err, [''comp_accrued''])"
    by (simp add: guarded_group_def del: accept.simps)
  from t1 [where c = 0 and self_max = 50 and pre = "[]" and g = ?b and post = "[]"
      and ?st2.0 = Map.empty and ?w2.0 = "[]" and params = "VDict []" and ev = ?ev
      and ?w3.0 = "[''comp_accrued'']" and err = ?err and ?ace1.0 = False] b [of "[]"]
  have l: "repeat_loop ?v example_warn ''harvesting'' [?b] None ?ss 50 0 Map.empty (VDict [])
             False [] = (Inl ?err, [''comp_accrued''])"
    by (simp del: accept.simps)
  have hooks: "enter_repeat (example_executor f) s st w = (Inr st, w)"
    for f s st and w :: "string list"
    by (simp add: example_executor_def Visitor_hook_def)
  have prep: "prepare_args (Repeat ''harvesting'' None [?b] None ?ss False (Val (VInt 50)))
                Map.empty (VDict [])
                = Inr (Repeat ''harvesting'' None [?b] None ?ss False (Val (VInt 50)))"
    by (simp add: prepare_field_def Repeat_max_def py_int_def)
  from t1 [where m = "Val (VInt 50)" and st_r = Map.empty and w_r = "[]"
      and self' = "Repeat ''harvesting'' None [?b] None ?ss False (Val (VInt 50))"
      and st_e = Map.empty and w_e = "[]" and self_max = 50 and n = 0 and ?ace1.0 = False
      and err = ?err and ?w3.0 = "[''comp_accrued'']"] l prep
  have r: "accept ?v example_warn (Repeat ''harvesting'' None [?b] None ?ss False (Val (VInt 50)))
             Map.empty (VDict []) [] = (Inl ?err, [''comp_accrued''])"
    by (simp add: hooks del: accept.simps prepare_args.simps)
  have bl: "accept ?l example_warn ?b Map.empty (VDict []) ?w = (Inr ?ev, ?w')"
    by (simp add: example_executor_def late_effect_def)
  note t2 = group_guard_chain_effect [where v = ?l and lg = example_warn
      and sl = "''harvesting''" and d = None and gs = "[?b]" and ec = None and ss = ?ss
      and h = False and st = Map.empty and w = ?w and ?st1.0 = Map.empty and ?w1.0 = ?w
      and up = "VDict []", OF enter]
  from t2 [where pre = "[]" and g = ?b and post = "[]" and ?st2.0 = Map.empty and ?w2.0 = ?w
      and params = "VDict []" and ev = ?ev and ?w3.0 = ?w'] bl
  have g2: "accept ?l example_warn guarded_group Map.empty (VDict []) ?w = (Inl ?err, ?w')"
    by (simp add: guarded_group_def del: accept.simps)
  have ca: "call_at ?l example_warn (harvesting_pipeline, Map.empty, VDict [], []) ?path
              = Some (guarded_group, Map.empty, VDict [], ?w)"
    by (simp add: harvesting_pipeline_def guarded_group_def example_executor_def late_effect_def
          Visitor_hook_def pass_call_def steps_call_def condition_call_def prepare_field_def
          Repeat_max_def py_int_def)
  from t2 [where err = ?err and ?w4.0 = ?w' and outer = harvesting_pipeline
      and st_outer = Map.empty and up_outer = "VDict []" and w_outer = "[]" and path = ?path]
    g2 ca
  have n: "accept ?l example_warn harvesting_pipeline Map.empty (VDict []) [] = (Inl ?err, ?w')"
    by (simp add: guarded_group_def del: accept.simps call_at.simps)
  from t2 [where err = ?err and ?w4.0 = ?w' and q = "\<lparr>root = harvesting_pipeline\<rparr>"
      and user_params = VNone and raw_q = VNone and w_q = "[]" and path = ?path] g2 ca
  have np: "pipeline_call ?l example_warn \<lparr>root = harvesting_pipeline\<rparr> VNone []
              = (Inl ?err, ?w')"
    by (simp add: guarded_group_def del: accept.simps call_at.simps)
  from g c s p l r ca n np show ?thesis by blast
qed

text \<open>
  Claim C3. A group has been entered and its condition evaluated. If the condition is
  false, the children are skipped: the exit hook receives the state and the executor that
  the evaluation of the condition left, and the group reports no chain effect. If it is
  true, the children run in declaration order, each on the state its predecessor left
  (\<open>children_evaluations\<close>); the exit hook receives the state of the last one, and the
  group reports a chain effect exactly when one of the children's evaluations does.
  Without an entry condition the condition is \<open>True\<close>.
\<close>

theorem group_condition_and_children:
  assumes "enter_group v (Group sl d gs ec ss h) st w = (Inr st1, w1)"
    and "eval_condition v lg sl gs ec st1 up w1 = (Inr (st2, condition), w2)"
  shows "(\<not> truthy condition
            \<and> exit_group v (Group sl d gs ec ss h) st2 w2 = (Inr st3, w3)
            \<longrightarrow> accept v lg (Group sl d gs ec ss h) st up w
                  = (Inr \<lparr>state = st3, chain_effect = False\<rparr>, w3))
       \<and> (truthy condition
            \<and> children_evaluations v lg ss st2 up w2 = (Inr evs, w3')
            \<and> exit_group v (Group sl d gs ec ss h)
                 (state (last (\<lparr>state = st2, chain_effect = False\<rparr> # evs))) w3' = (Inr st4, w4)
            \<longrightarrow> length evs = length ss
                \<and> accept v lg (Group sl d gs ec ss h) st up w
                  = (Inr \<lparr>state = st4, chain_effect = (\<exists>ev\<in>set evs. chain_effect ev)\<rparr>, w4))
       \<and> (ec = None \<longrightarrow> condition = VBool True)"
proof (intro conjI impI)
  assume "\<not> truthy condition \<and> exit_group v (Group sl d gs ec ss h) st2 w2 = (Inr st3, w3)"
  with assms
  show "accept v lg (Group sl d gs ec ss h) st up w = (Inr \<lparr>state = st3, chain_effect = False\<rparr>, w3)"
    by (simp del: eval_condition.simps)
next
  assume a: "truthy condition
            \<and> children_evaluations v lg ss st2 up w2 = (Inr evs, w3')
            \<and> exit_group v (Group sl d gs ec ss h)
                 (state (last (\<lparr>state = st2, chain_effect = False\<rparr> # evs))) w3' = (Inr st4, w4)"
  with assms
  show "accept v lg (Group sl d gs ec ss h) st up w
          = (Inr \<lparr>state = st4, chain_effect = (\<exists>ev\<in>set evs. chain_effect ev)\<rparr>, w4)"
    by (simp add: accept_steps_children_evaluations del: eval_condition.simps)
  from a have "children_evaluations v lg ss st2 up w2 = (Inr evs, w3')" by simp
  then show "length evs = length ss"
    by (induction ss arbitrary: st2 w2 evs) (auto split: sum.splits prod.splits)
next
  assume "ec = None"
  with assms(2) show "condition = VBool True"
    by (auto split: sum.splits prod.splits)
qed

text \<open>
  The group with the entry condition \<open>x > 0\<close> and the child that sets \<open>y\<close> to twice \<open>x\<close>:
  from \<open>x = 5\<close> the child runs and leaves \<open>y = 10\<close>; from \<open>x = -1\<close> it is skipped. The
  group without entry condition runs its child, whose chain effect the group reports.
\<close>

theorem group_condition_and_children_witness:
  "accept (example_executor (effect_first 0)) example_warn example_group
       [''x'' \<mapsto> VInt 5] (VDict []) []
     = (Inr \<lparr>state = map_of [(''x'', VInt 5), (''y'', VInt 10)], chain_effect = False\<rparr>,
        [''check'', ''double''])
   \<and> accept (example_executor (effect_first 0)) example_warn example_group
       [''x'' \<mapsto> VInt (- 1)] (VDict []) []
     = (Inr \<lparr>state = [''x'' \<mapsto> VInt (- 1), ''_condition_'' \<mapsto> VBool False],
             chain_effect = False\<rparr>, [''check''])
   \<and> accept (example_executor (slug_effect ''harvest_comp'')) example_warn guarded_group
       Map.empty (VDict []) []
     = (Inr \<lparr>state = Map.empty, chain_effect = True\<rparr>, [''comp_accrued'', ''harvest_comp''])"
proof -
  let ?v = "example_executor (effect_first 0)"
  let ?u = "example_executor (slug_effect ''harvest_comp'')"
  let ?e = "Transform Expr ''check'' x_positive []"
  let ?c = "Transform PlainTransform ''double'' double_x []"
  have enter: "enter_group (example_executor f) s st w = (Inr st, w)"
    and exit: "exit_group (example_executor f) s st w = (Inr st, w)"
    for f s st and w :: "string list"
    by (simp_all add: example_executor_def Visitor_hook_def)
  have c5: "eval_condition ?v example_warn ''g'' [] (Some ?e) [''x'' \<mapsto> VInt 5] (VDict []) []
              = (Inr ([''x'' \<mapsto> VInt 5, ''_condition_'' \<mapsto> VBool True], VBool True), [''check''])"
    by (simp add: example_executor_def x_positive_def state_get_def effect_first_def)
  have k5: "children_evaluations ?v example_warn [?c]
              [''x'' \<mapsto> VInt 5, ''_condition_'' \<mapsto> VBool True] (VDict []) [''check'']
              = (Inr [\<lparr>state = map_of [(''x'', VInt 5), (''y'', VInt 10)], chain_effect = False\<rparr>],
                 [''check'', ''double''])"
    by (simp add: example_executor_def double_x_def effect_first_def)
  from group_condition_and_children [where v = ?v and lg = example_warn and sl = "''g''"
      and d = None and gs = "[]" and ec = "Some ?e" and ss = "[?c]" and h = False
      and st = "[''x'' \<mapsto> VInt 5]" and w = "[]" and up = "VDict []",
      OF enter c5, THEN conjunct2, THEN conjunct1, rule_format, OF conjI [OF _ conjI [OF k5 exit]]]
  have a: "accept ?v example_warn example_group [''x'' \<mapsto> VInt 5] (VDict []) []
     = (Inr \<lparr>state = map_of [(''x'', VInt 5), (''y'', VInt 10)], chain_effect = False\<rparr>,
        [''check'', ''double''])"
    by (simp add: example_group_def del: accept.simps)
  have c1: "eval_condition ?v example_warn ''g'' [] (Some ?e) [''x'' \<mapsto> VInt (- 1)] (VDict []) []
              = (Inr ([''x'' \<mapsto> VInt (- 1), ''_condition_'' \<mapsto> VBool False], VBool False),
                 [''check''])"
    by (simp add: example_executor_def x_positive_def state_get_def effect_first_def)
  from group_condition_and_children [where v = ?v and lg = example_warn and sl = "''g''"
      and d = None and gs = "[]" and ec = "Some ?e" and ss = "[?c]" and h = False
      and st = "[''x'' \<mapsto> VInt (- 1)]" and w = "[]" and up = "VDict []",
      OF enter c1, THEN conjunct1, rule_format, OF conjI [OF _ exit]]
  have b: "accept ?v example_warn example_group [''x'' \<mapsto> VInt (- 1)] (VDict []) []
     = (Inr \<lparr>state = [''x'' \<mapsto> VInt (- 1), ''_condition_'' \<mapsto> VBool False],
             chain_effect = False\<rparr>, [''check''])"
    by (simp add: example_group_def del: accept.simps)
  have cg: "eval_condition ?u example_warn ''harvesting'' [Leaf CompAccrued ''comp_accrued'' []]
              None Map.empty (VDict []) [] = (Inr (Map.empty, VBool True), [''comp_accrued''])"
    by (simp add: example_executor_def slug_effect_def)
  have kg: "children_evaluations ?u example_warn [Leaf HarvestComp ''harvest_comp'' []]
              Map.empty (VDict []) [''comp_accrued'']
              = (Inr [\<lparr>state = Map.empty, chain_effect = True\<rparr>],
                 [''comp_accrued'', ''harvest_comp''])"
    by (simp add: example_executor_def slug_effect_def)
  from group_condition_and_children [where v = ?u and lg = example_warn
      and sl = "''harvesting''"
      and d = None and gs = "[Leaf CompAccrued ''comp_accrued'' []]" and ec = None
      and ss = "[Leaf HarvestComp ''harvest_comp'' []]" and h = False
      and st = Map.empty and w = "[]" and up = "VDict []",
      OF enter cg, THEN conjunct2, THEN conjunct1, rule_format, OF conjI [OF _ conjI [OF kg exit]]]
  have c: "accept ?u example_warn guarded_group Map.empty (VDict []) []
     = (Inr \<lparr>state = Map.empty, chain_effect = True\<rparr>, [''comp_accrued'', ''harvest_comp''])"
    by (simp add: guarded_group_def del: accept.simps)
  from a b c show ?thesis by blast
qed

text \<open>
  Claim C4. A \<open>Repeat\<close> has resolved its parameters, been entered, and its loop has
  ended without an error, at index \<open>c\<close>. Then the loop is what \<open>repeat_passes\<close> makes
  of \<open>max\<close> iterations: the children ran in \<open>k\<close> passes, \<open>k\<close> being at most \<open>max\<close>,
  each pass on the state that the one before it left, and the state of the loop is the
  state that the last pass left (that the last evaluation of the condition left, when
  the loop ended on a false condition). When \<open>max\<close> is not positive there is no pass:
  the state and the executor are as the entry hook left them. Here \<open>max\<close> is the
  integer that the field \<open>max\<close> resolves to (1 and 0 for \<open>True\<close> and \<open>False\<close>). The
  loop has begun at most \<open>max\<close> iterations. When the range was exhausted, all \<open>max\<close>
  iterations were begun, the children ran in all of them, and the test for the warning
  holds; the warning is a call of the logger and no error, and whether it is given or
  not, \<open>accept\<close> returns the evaluation of the state the exit hook makes of the loop's
  state, with the loop's \<open>any_chain_effect\<close>.
\<close>

theorem repeat_iterations_bounded:
  assumes "prepare_args (Repeat sl d gs ec ss h m) st up = Inr self'"
    and "enter_repeat v self' st w = (Inr st1, w1)"
    and "range_stop self' = Inr self_max"
    and "repeat_loop v lg sl gs ec ss self_max 0 st1 up False w1 = (Inr (st2, ace, c, how), w2)"
  shows "(\<exists>k. repeat_passes v lg sl gs ec ss (nat self_max) st1 up False w1 = (Inr (st2, ace, k), w2)
            \<and> k \<le> nat self_max \<and> int k \<le> iterations_begun self_max c
            \<and> (how = Range_exhausted \<longrightarrow> k = nat self_max))
       \<and> (self_max \<le> 0 \<longrightarrow> st2 = st1 \<and> w2 = w1 \<and> \<not> ace)
       \<and> (self' = Repeat sl d gs ec ss h (Val (VInt self_max))
            \<or> (\<exists>b. self' = Repeat sl d gs ec ss h (Val (VBool b))
                  \<and> self_max = (if b then 1 else 0)))
       \<and> 0 \<le> iterations_begun self_max c \<and> iterations_begun self_max c \<le> max 0 self_max
       \<and> (how = Range_exhausted \<longrightarrow>
             iterations_begun self_max c = max 0 self_max \<and> c \<ge> self_max - 1)
       \<and> (exit_repeat v self' st2
              (if c \<ge> self_max - 1
               then lg ''maximum iterations reached for Repeat Group'' w2 else w2) = (Inr st3, w3)
            \<longrightarrow> accept v lg (Repeat sl d gs ec ss h m) st up w
                  = (Inr \<lparr>state = st3, chain_effect = ace\<rparr>, w3))"
proof -
  from repeat_loop_index [OF assms(4)]
  have idx: "0 \<le> c" "c < self_max \<or> (\<not> 0 < self_max \<and> c = 0)"
    "how = Range_exhausted \<longrightarrow> self_max - 1 \<le> c"
    by auto
  then have b: "0 \<le> iterations_begun self_max c \<and> iterations_begun self_max c \<le> max 0 self_max
       \<and> (how = Range_exhausted \<longrightarrow>
             iterations_begun self_max c = max 0 self_max \<and> c \<ge> self_max - 1)"
    by (auto simp: iterations_begun_def)
  let ?k = "if 0 < self_max then nat c + (if how = Condition_false then 0 else 1) else 0"
  from repeat_loop_passes [of v lg sl gs ec ss self_max 0 st1 up False w1] assms(4)
  have p: "repeat_passes v lg sl gs ec ss (nat self_max) st1 up False w1 = (Inr (st2, ace, ?k), w2)"
    by simp
  from repeat_passes_le [OF p] have "?k \<le> nat self_max" .
  moreover from idx have "int ?k \<le> iterations_begun self_max c"
    by (auto simp: iterations_begun_def)
  moreover from idx have "how = Range_exhausted \<longrightarrow> ?k = nat self_max"
    by auto
  ultimately have e: "\<exists>k. repeat_passes v lg sl gs ec ss (nat self_max) st1 up False w1
              = (Inr (st2, ace, k), w2)
            \<and> k \<le> nat self_max \<and> int k \<le> iterations_begun self_max c
            \<and> (how = Range_exhausted \<longrightarrow> k = nat self_max)"
    using p by blast
  have z: "self_max \<le> 0 \<longrightarrow> st2 = st1 \<and> w2 = w1 \<and> \<not> ace"
    using assms(4) by (auto simp: repeat_loop.simps [where c = 0])
  from assms(1) obtain actual where s': "self' = Repeat sl d gs ec ss h (Val actual)"
    by (auto split: sum.splits)
  have r: "self' = Repeat sl d gs ec ss h (Val (VInt self_max))
            \<or> (\<exists>b. self' = Repeat sl d gs ec ss h (Val (VBool b))
                  \<and> self_max = (if b then 1 else 0))"
    using assms(3) unfolding s' by (cases actual) auto
  have x: "exit_repeat v self' st2
              (if c \<ge> self_max - 1
               then lg ''maximum iterations reached for Repeat Group'' w2 else w2) = (Inr st3, w3)
            \<longrightarrow> accept v lg (Repeat sl d gs ec ss h m) st up w
                  = (Inr \<lparr>state = st3, chain_effect = ace\<rparr>, w3)"
    using assms by (auto simp del: prepare_args.simps)
  from e z r b x show ?thesis by blast
qed

text \<open>
  The \<open>Repeat\<close> with \<open>max = 3\<close> whose child has a chain effect on every visit: three
  passes, the warning in the log, and the evaluation returned. The \<open>Repeat\<close> with
  \<open>max = 2\<close> whose child sets \<open>y\<close> to twice \<open>x\<close>: two passes, and the state returned
  has the child's \<open>y\<close>. A \<open>Repeat\<close> with \<open>max = 0\<close>: the state is returned as it was
  received and no step is visited.
\<close>

theorem repeat_iterations_bounded_witness:
  "accept (example_executor (effect_first 5)) example_warn harvest_loop Map.empty (VDict []) []
     = (Inr \<lparr>state = Map.empty, chain_effect = True\<rparr>,
        [''harvest_comp'', ''harvest_comp'', ''harvest_comp'',
         ''WARNING: maximum iterations reached for Repeat Group''])
   \<and> iterations_begun 3 2 = 3
   \<and> repeat_passes (example_executor (effect_first 5)) example_warn ''loop'' [] None
       [Leaf HarvestComp ''harvest_comp'' []] 3 Map.empty (VDict []) False []
     = (Inr (Map.empty, True, 3), [''harvest_comp'', ''harvest_comp'', ''harvest_comp''])
   \<and> accept (example_executor (effect_first 5)) example_warn double_loop
       [''x'' \<mapsto> VInt 5] (VDict []) []
     = (Inr \<lparr>state = map_of [(''x'', VInt 5), (''y'', VInt 10)], chain_effect = True\<rparr>,
        [''double'', ''double'', ''WARNING: maximum iterations reached for Repeat Group''])
   \<and> accept (example_executor (effect_first 5)) example_warn (empty_loop (Val (VInt 0)))
       [''x'' \<mapsto> VInt 5] (VDict []) []
     = (Inr \<lparr>state = [''x'' \<mapsto> VInt 5], chain_effect = False\<rparr>,
        [''WARNING: maximum iterations reached for Repeat Group''])"
proof -
  let ?v = "example_executor (effect_first 5)"
  let ?b = "[Leaf HarvestComp ''harvest_comp'' []]"
  let ?d = "[Transform PlainTransform ''double'' double_x []]"
  let ?xy = "map_of [(''x'', VInt 5), (''y'', VInt 10)]"
  have prep: "prepare_args (Repeat ''loop'' None [] None ss False (Val (VInt n))) st (VDict [])
                = Inr (Repeat ''loop'' None [] None ss False (Val (VInt n)))" for ss n st
    by (simp add: prepare_field_def Repeat_max_def py_int_def)
  have enter: "enter_repeat ?v s st w = (Inr st, w)"
    and exit: "exit_repeat ?v s st w = (Inr st, w)" for s st and w :: "string list"
    by (simp_all add: example_executor_def Visitor_hook_def)
  have rs: "range_stop (Repeat ''loop'' None [] None ss False (Val (VInt n))) = Inr n" for ss n
    by simp
  have loop: "repeat_loop ?v example_warn ''loop'' [] None ?b 3 0 Map.empty (VDict []) False []
                = (Inr (Map.empty, True, 2, Range_exhausted),
                   [''harvest_comp'', ''harvest_comp'', ''harvest_comp''])"
    by (simp add: repeat_loop.simps example_executor_def effect_first_def)
  note t = repeat_iterations_bounded [OF prep enter rs loop,
      where ?st3.0 = Map.empty
        and ?w3.0 = "[''harvest_comp'', ''harvest_comp'', ''harvest_comp'',
                     ''WARNING: maximum iterations reached for Repeat Group'']"]
  from t have a: "accept ?v example_warn harvest_loop Map.empty (VDict []) []
     = (Inr \<lparr>state = Map.empty, chain_effect = True\<rparr>,
        [''harvest_comp'', ''harvest_comp'', ''harvest_comp'',
         ''WARNING: maximum iterations reached for Repeat Group''])"
    and i: "iterations_begun 3 2 = 3"
    by (simp_all add: harvest_loop_def exit example_warn_def iterations_begun_def
          del: accept.simps prepare_args.simps repeat_passes.simps)
  from t have p: "repeat_passes ?v example_warn ''loop'' [] None ?b 3 Map.empty (VDict []) False []
     = (Inr (Map.empty, True, 3), [''harvest_comp'', ''harvest_comp'', ''harvest_comp''])"
    by (auto simp del: repeat_passes.simps)
  have loop2: "repeat_loop ?v example_warn ''loop'' [] None ?d 2 0 [''x'' \<mapsto> VInt 5] (VDict [])
                 False []
                = (Inr (?xy, True, 1, Range_exhausted), [''double'', ''double''])"
    by (simp add: repeat_loop.simps example_executor_def effect_first_def double_x_def)
  from repeat_iterations_bounded [OF prep enter rs loop2,
      where ?st3.0 = ?xy
        and ?w3.0 = "[''double'', ''double'',
                     ''WARNING: maximum iterations reached for Repeat Group'']"]
  have d: "accept ?v example_warn double_loop [''x'' \<mapsto> VInt 5] (VDict []) []
     = (Inr \<lparr>state = ?xy, chain_effect = True\<rparr>,
        [''double'', ''double'', ''WARNING: maximum iterations reached for Repeat Group''])"
    by (simp add: double_loop_def exit example_warn_def
          del: accept.simps prepare_args.simps repeat_passes.simps)
  have loop0: "repeat_loop ?v example_warn ''loop'' [] None [] 0 0 [''x'' \<mapsto> VInt 5] (VDict [])
                 False []
                = (Inr ([''x'' \<mapsto> VInt 5], False, 0, Range_exhausted), [])"
    by (simp add: repeat_loop.simps)
  from repeat_iterations_bounded [OF prep enter rs loop0,
      where ?st3.0 = "[''x'' \<mapsto> VInt 5]"
        and ?w3.0 = "[''WARNING: maximum iterations reached for Repeat Group'']"]
  have z: "accept ?v example_warn (empty_loop (Val (VInt 0))) [''x'' \<mapsto> VInt 5] (VDict []) []
     = (Inr \<lparr>state = [''x'' \<mapsto> VInt 5], chain_effect = False\<rparr>,
        [''WARNING: maximum iterations reached for Repeat Group''])"
    by (simp add: empty_loop_def exit example_warn_def
          del: accept.simps prepare_args.simps repeat_passes.simps)
  from a i p d z show ?thesis by blast
qed

text \<open>
  Claim C9. The guards of a group or a \<open>Repeat\<close> pass, and its entry condition runs
  without chain effect and leaves a state without the key \<open>_condition_\<close>. Then the
  condition is \<open>False\<close>. A \<open>Group\<close> goes on to its exit hook with that state and
  reports no chain effect, whatever its children are; the loop of a \<open>Repeat\<close> ends at the
  iteration at hand without running the children.
\<close>

theorem missing_condition_key_is_false:
  assumes "accept_given v lg sl gs st up w = (Inr st1, w1)"
    and "dict_get up (slug e) (VDict []) = Inr params"
    and "accept v lg e st1 params w1 = (Inr ev, w2)"
    and "\<not> chain_effect ev"
    and "state ev ''_condition_'' = None"
  shows "eval_condition v lg sl gs (Some e) st up w = (Inr (state ev, VBool False), w2)
       \<and> (enter_group v (Group sl d gs (Some e) ss h) st0 w0 = (Inr st, w)
            \<and> exit_group v (Group sl d gs (Some e) ss h) (state ev) w2 = (Inr st3, w3)
            \<longrightarrow> accept v lg (Group sl d gs (Some e) ss h) st0 up w0
                  = (Inr \<lparr>state = st3, chain_effect = False\<rparr>, w3))
       \<and> (c < self_max
            \<longrightarrow> repeat_loop v lg sl gs (Some e) ss self_max c st up ace w
                  = (Inr (state ev, ace, c, Condition_false), w2))"
proof -
  from assms
  have ec: "eval_condition v lg sl gs (Some e) st up w = (Inr (state ev, VBool False), w2)"
    by (simp add: state_get_def)
  then show ?thesis
    by (auto simp: repeat_loop.simps [where ec = "Some e"] simp del: eval_condition.simps)
qed

text \<open>
  An executor whose \<open>expr\<close> returns the state it received: the entry condition \<open>check\<close>
  leaves no \<open>_condition_\<close>, and the child \<open>harvest_comp\<close> is not visited, in the group
  and in the loop.
\<close>

theorem missing_condition_key_is_false_witness:
  "accept quiet_executor example_warn silent_group Map.empty (VDict []) []
     = (Inr \<lparr>state = Map.empty, chain_effect = False\<rparr>, [''comp_accrued'', ''check''])
   \<and> repeat_loop quiet_executor example_warn ''harvesting''
       [Leaf CompAccrued ''comp_accrued'' []] (Some (Transform Expr ''check'' x_positive []))
       [Leaf HarvestComp ''harvest_comp'' []] 50 0 Map.empty (VDict []) False []
     = (Inr (Map.empty, False, 0, Condition_false), [''comp_accrued'', ''check''])"
proof -
  let ?v = "quiet_executor"
  let ?e = "Transform Expr ''check'' x_positive []"
  let ?ev = "\<lparr>state = Map.empty, chain_effect = False\<rparr>"
  have given: "accept_given ?v example_warn ''harvesting'' [Leaf CompAccrued ''comp_accrued'' []]
                 Map.empty (VDict []) [] = (Inr Map.empty, [''comp_accrued''])"
    by (simp add: quiet_executor_def)
  have params: "dict_get (VDict []) (slug ?e) (VDict []) = Inr (VDict [])"
    by simp
  have e: "accept ?v example_warn ?e Map.empty (VDict []) [''comp_accrued'']
             = (Inr ?ev, [''comp_accrued'', ''check''])"
    by (simp add: quiet_executor_def)
  have hooks: "enter_group ?v s st w = (Inr st, w)" "exit_group ?v s st w = (Inr st, w)"
    for s st and w :: "string list"
    by (simp_all add: quiet_executor_def Visitor_hook_def)
  from missing_condition_key_is_false [OF given params e,
      where d = None and ss = "[Leaf HarvestComp ''harvest_comp'' []]" and h = False
        and ?st0.0 = Map.empty and ?w0.0 = "[]" and ?st3.0 = Map.empty
        and ?w3.0 = "[''comp_accrued'', ''check'']" and c = 0 and self_max = 50 and ace = False]
  show ?thesis
    by (simp add: silent_group_def hooks del: accept.simps eval_condition.simps)
qed

text \<open>
  Claim C10. A group has been entered, its guards have run and left the state \<open>st2\<close>,
  and its entry condition, run on \<open>st2\<close>, has left the state of \<open>ev\<close> with a condition
  that is false. Then the children are skipped, and \<open>accept\<close> hands the state of \<open>ev\<close>,
  the guards' and the entry condition's updates in it, to the exit hook and returns
  what the hook returns; with the hook of the base class \<open>Visitor\<close> that is the state of
  \<open>ev\<close> itself.
\<close>

theorem guard_state_persists:
  assumes "enter_group v (Group sl d gs (Some e) ss h) st w = (Inr st1, w1)"
    and "accept_given v lg sl gs st1 up w1 = (Inr st2, w2)"
    and "dict_get up (slug e) (VDict []) = Inr params"
    and "accept v lg e st2 params w2 = (Inr ev, w3)"
    and "\<not> chain_effect ev"
    and "\<not> truthy (state_get (state ev) ''_condition_'' (VBool False))"
  shows "accept v lg (Group sl d gs (Some e) ss h) st up w
           = (case exit_group v (Group sl d gs (Some e) ss h) (state ev) w3 of
                (Inl err, w4) \<Rightarrow> (Inl err, w4)
              | (Inr st4, w4) \<Rightarrow> (Inr \<lparr>state = st4, chain_effect = False\<rparr>, w4))
       \<and> (exit_group v = Visitor_hook \<longrightarrow>
            accept v lg (Group sl d gs (Some e) ss h) st up w
              = (Inr \<lparr>state = state ev, chain_effect = False\<rparr>, w3))"
  using assms by (auto simp: Visitor_hook_def split: sum.splits prod.splits)

text \<open>
  The guard writes \<open>x = -1\<close>, the entry condition \<open>x > 0\<close> is false: the state returned
  has the guard's \<open>x\<close> and the entry condition's \<open>_condition_\<close>, and the child has not
  run.
\<close>

theorem guard_state_persists_witness:
  "accept (example_executor (effect_first 0)) example_warn seeded_group Map.empty (VDict []) []
     = (Inr \<lparr>state = [''x'' \<mapsto> VInt (- 1), ''_condition_'' \<mapsto> VBool False],
             chain_effect = False\<rparr>, [''seed'', ''check''])"
proof -
  let ?v = "example_executor (effect_first 0)"
  let ?g = "Transform PlainTransform ''seed'' seed_x []"
  let ?e = "Transform Expr ''check'' x_positive []"
  let ?ev = "\<lparr>state = [''x'' \<mapsto> VInt (- 1), ''_condition_'' \<mapsto> VBool False],
              chain_effect = False\<rparr>"
  have enter: "enter_group ?v s st w = (Inr st, w)" for s st and w :: "string list"
    by (simp add: example_executor_def Visitor_hook_def)
  have given: "accept_given ?v example_warn ''g'' [?g] Map.empty (VDict []) []
                 = (Inr [''x'' \<mapsto> VInt (- 1)], [''seed''])"
    by (simp add: example_executor_def seed_x_def effect_first_def)
  have params: "dict_get (VDict []) (slug ?e) (VDict []) = Inr (VDict [])"
    by simp
  have e: "accept ?v example_warn ?e [''x'' \<mapsto> VInt (- 1)] (VDict []) [''seed'']
             = (Inr ?ev, [''seed'', ''check''])"
    by (simp add: example_executor_def x_positive_def effect_first_def)
  have hook: "exit_group ?v = Visitor_hook"
    by (simp add: example_executor_def)
  from guard_state_persists [OF enter given params e,
      where ss = "[Transform PlainTransform ''double'' double_x []]" and d = None and h = False,
      THEN conjunct2]
  have "exit_group ?v = Visitor_hook \<longrightarrow>
          accept ?v example_warn
            (Group ''g'' None [?g] (Some ?e) [Transform PlainTransform ''double'' double_x []] False)
            Map.empty (VDict []) [] = (Inr ?ev, [''seed'', ''check''])"
    by (simp add: state_get_def del: accept.simps)
  with hook show ?thesis
    unfolding seeded_group_def by blast
qed

end
